theory Spec2Isabelle
  imports Main "HOL-Library.Char_ord" "HOL-Library.List_Lexorder"
    "HOL-Library.Product_Lexorder" "HOL-Library.AList"
begin

section \<open>Python values, errors and dictionaries\<close>

text \<open>
  The reports of \<^verbatim>\<open>ckanext/qa/reports.py\<close> are Python 2 functions over rows of the CKAN
  database. An exception that leaves a report is the \<open>Inl\<close> branch of its result.
  \<open>UnboundLocalError\<close> is what Python raises for a local variable that is read before
  any assignment; \<open>NameError\<close> for a global name that the module never binds.
\<close>

datatype error =
    KeyError | NameError | UnboundLocalError | TypeError | ValueError | AttributeError

text \<open>
  The values the report dictionaries hold: \<open>None\<close>, a (unicode) string, an integer
  and a timestamp (\<open>datetime\<close>, as a number of ticks).
\<close>

datatype val = VNone | VStr string | VInt int | VTime nat

text \<open>
  An \<open>OrderedDict\<close> is an association list in insertion order;
  \<open>d[k] = v\<close> is \<^const>\<open>AList.update\<close>: an existing key keeps its place, a new
  key goes to the end. \<open>d[k]\<close> raises \<open>KeyError\<close> on a key that is not there.
\<close>

type_synonym odict = "(string \<times> val) list"

definition od_keys :: "odict \<Rightarrow> string list" where
  "od_keys d = map fst d"

definition od_get :: "odict \<Rightarrow> string \<Rightarrow> error + val" where
  "od_get d k = (case map_of d k of None \<Rightarrow> Inl KeyError | Some v \<Rightarrow> Inr v)"

section \<open>The record store\<close>

text \<open>
  The tables the queries read, with the columns they name. Every column is text but
  \<open>resource.position\<close> (an integer) and \<open>task_status.last_updated\<close> (a timestamp).
  SQL \<open>NULL\<close> is not modelled: every column holds a value.
\<close>

record package =
  pkg_id :: string
  pkg_name :: string
  pkg_title :: string
  pkg_state :: string

record resource_group =
  rg_id :: string
  rg_package_id :: string
  rg_state :: string

record resource =
  res_id :: string
  res_resource_group_id :: string
  res_url :: string
  res_position :: int
  res_state :: string

record task_status =
  ts_entity_id :: string
  ts_task_type :: string
  ts_key :: string
  ts_value :: string
  ts_error :: string
  ts_last_updated :: nat

record member =
  mem_table_id :: string
  mem_group_id :: string

record group =
  grp_id :: string
  grp_name :: string
  grp_title :: string
  grp_state :: string

record db =
  db_package :: "package list"
  db_resource_group :: "resource_group list"
  db_resource :: "resource list"
  db_task_status :: "task_status list"
  db_member :: "member list"
  db_group :: "group list"

text \<open>
  One row of the join
  \<^verbatim>\<open>task_status left join resource left join resource_group left join package
  left join member left join "group"\<close>
  that the organisation reports select from. Each of their \<open>where\<close> clauses tests a
  column of every joined table, so a row that a left join padded with \<open>NULL\<close>s is
  never selected, and the join is the inner one.
\<close>

record row =
  j_ts :: task_status
  j_res :: resource
  j_rg :: resource_group
  j_pkg :: package
  j_mem :: member
  j_grp :: group

definition joined_rows :: "db \<Rightarrow> row list" where
  "joined_rows d =
     [\<lparr>j_ts = ts, j_res = r, j_rg = rg, j_pkg = p, j_mem = m, j_grp = g\<rparr>.
        ts \<leftarrow> db_task_status d,
        r \<leftarrow> db_resource d, ts_entity_id ts = res_id r,
        rg \<leftarrow> db_resource_group d, res_resource_group_id r = rg_id rg,
        p \<leftarrow> db_package d, rg_package_id rg = pkg_id p,
        m \<leftarrow> db_member d, mem_table_id m = pkg_id p,
        g \<leftarrow> db_group d, mem_group_id m = grp_id g]"

text \<open>The columns of a selected row, under the names the \<open>select\<close> lists give them.\<close>

definition package_id :: "row \<Rightarrow> string" where
  "package_id j = pkg_id (j_pkg j)"

definition task_status_key :: "row \<Rightarrow> string" where
  "task_status_key j = ts_key (j_ts j)"

definition task_status_value :: "row \<Rightarrow> string" where
  "task_status_value j = ts_value (j_ts j)"

definition task_status_error :: "row \<Rightarrow> string" where
  "task_status_error j = ts_error (j_ts j)"

definition task_status_last_updated :: "row \<Rightarrow> nat" where
  "task_status_last_updated j = ts_last_updated (j_ts j)"

definition resource_id :: "row \<Rightarrow> string" where
  "resource_id j = res_id (j_res j)"

definition resource_url :: "row \<Rightarrow> string" where
  "resource_url j = res_url (j_res j)"

definition position :: "row \<Rightarrow> int" where
  "position j = res_position (j_res j)"

definition package_title :: "row \<Rightarrow> string" where
  "package_title j = pkg_title (j_pkg j)"

definition package_name :: "row \<Rightarrow> string" where
  "package_name j = pkg_name (j_pkg j)"

definition publisher_id :: "row \<Rightarrow> string" where
  "publisher_id j = grp_id (j_grp j)"

definition publisher_name :: "row \<Rightarrow> string" where
  "publisher_name j = grp_name (j_grp j)"

definition publisher_title :: "row \<Rightarrow> string" where
  "publisher_title j = grp_title (j_grp j)"

text \<open>
  The state tests shared by the organisation queries:
  \<^verbatim>\<open>package.state = 'active' and resource.state='active' and
  resource_group.state='active' and "group".state='active'\<close>.
\<close>

definition all_active :: "row \<Rightarrow> bool" where
  "all_active j \<longleftrightarrow>
     pkg_state (j_pkg j) = ''active'' \<and> res_state (j_res j) = ''active'' \<and>
     rg_state (j_rg j) = ''active'' \<and> grp_state (j_grp j) = ''active''"

text \<open>
  \<^verbatim>\<open>order by package.title, package.name, resource.position\<close>. Text is compared
  character by character; where two rows agree on the three columns SQL leaves their
  order open, and the model keeps the order of the join.
\<close>

definition order_by_package :: "row list \<Rightarrow> row list" where
  "order_by_package rs = sort_key (\<lambda>j. (package_title j, package_name j, position j)) rs"

text \<open>\<open>model.Group.by_name\<close>: the group of that name, or \<open>None\<close>.\<close>

definition Group_by_name :: "db \<Rightarrow> string \<Rightarrow> group option" where
  "Group_by_name d n = find (\<lambda>g. grp_name g = n) (db_group d)"

section \<open>scores_by_dataset_for_organisation\<close>

definition not_broken_but_0_stars :: "string set" where
  "not_broken_but_0_stars = {''Chose not to download''}"

definition archiver_status__not_broken_link :: "string set" where
  "archiver_status__not_broken_link = {''Chose not to download'', ''Archived successfully''}"

text \<open>
  The query of \<open>scores_by_dataset_for_organisation\<close>: every status row of a resource
  that has an archiver status row of value \<open>'0'\<close>, for the organisation of that name.
\<close>

definition archiver_status_0 :: "db \<Rightarrow> string list" where
  "archiver_status_0 d =
     [ts_entity_id t. t \<leftarrow> db_task_status d,
        ts_task_type t = ''archiver'' \<and> ts_key t = ''status'' \<and> ts_value t = ''0'']"

definition scores_rows :: "db \<Rightarrow> string \<Rightarrow> row list" where
  "scores_rows d org_name =
     order_by_package
       (filter (\<lambda>j. ts_entity_id (j_ts j) \<in> set (archiver_status_0 d) \<and> all_active j \<and>
                     publisher_name j = org_name)
          (joined_rows d))"

text \<open>
  \<open>save_res_data\<close> reads \<open>res_data['openness_score_reason']\<close> (a \<open>KeyError\<close> when
  the key is missing), drops the record when the reason is in
  \<open>not_broken_but_0_stars\<close> and appends it to \<open>data\<close> otherwise. Its first argument is
  not used.
\<close>

definition in_strings :: "val \<Rightarrow> string set \<Rightarrow> bool" where
  "in_strings v S = (case v of VStr s \<Rightarrow> s \<in> S | _ \<Rightarrow> False)"

definition save_res_data :: "row \<Rightarrow> odict \<Rightarrow> odict list \<Rightarrow> error + odict list" where
  "save_res_data r res_data data =
     (case od_get res_data ''openness_score_reason'' of
        Inl e \<Rightarrow> Inl e
      | Inr reason \<Rightarrow>
          if in_strings reason not_broken_but_0_stars then Inr data
          else Inr (data @ [res_data]))"

definition init_res_data :: "row \<Rightarrow> odict" where
  "init_res_data r =
     [(''package_name'', VStr (package_name r)),
      (''package_title'', VStr (package_title r)),
      (''resource_id'', VStr (resource_id r)),
      (''resource_url'', VStr (resource_url r)),
      (''resource_position'', VInt (position r))]"

text \<open>
  \<open>max(row.task_status_last_updated, res_data['openness_score_updated'])\<close>: two
  timestamps compare; a timestamp and any other value do not (Python 2's
  \<open>datetime\<close> raises \<open>TypeError\<close>).
\<close>

definition max_updated :: "nat \<Rightarrow> val \<Rightarrow> error + val" where
  "max_updated t v = (case v of VTime u \<Rightarrow> Inr (VTime (max t u)) | _ \<Rightarrow> Inl TypeError)"

text \<open>
  The body of the loop from \<open>res_data[row.task_status_key] = ...\<close> on: the row's pair
  goes into the accumulator, then the time stamp.
\<close>

definition merge_row :: "row \<Rightarrow> odict \<Rightarrow> error + odict" where
  "merge_row r res_data =
     (let rd = AList.update (task_status_key r) (VStr (task_status_value r)) res_data in
      case map_of rd ''openness_score_updated'' of
        Some v \<Rightarrow>
          (case max_updated (task_status_last_updated r) v of
             Inl e \<Rightarrow> Inl e
           | Inr m \<Rightarrow> Inr (AList.update ''openness_score_updated'' m rd))
      | None \<Rightarrow>
          Inr (AList.update ''openness_score_updated''
                 (VTime (task_status_last_updated r)) rd))"

text \<open>
  The state of the loop: \<open>last_row\<close>, \<open>res_data\<close> (both \<open>None\<close> before the first
  row) and \<open>data\<close>. An \<open>OrderedDict\<close> is true when it has a key; assigning into
  \<open>None\<close> is a \<open>TypeError\<close>.
\<close>

record collator =
  last_row :: "row option"
  res_data :: "odict option"
  data :: "odict list"

definition truthy_dict :: "odict option \<Rightarrow> bool" where
  "truthy_dict d = (case d of None \<Rightarrow> False | Some kv \<Rightarrow> kv \<noteq> [])"

definition store_row :: "row \<Rightarrow> odict option \<Rightarrow> odict list \<Rightarrow> error + collator" where
  "store_row r rd dat =
     (case rd of
        None \<Rightarrow> Inl TypeError
      | Some kv \<Rightarrow>
          (case merge_row r kv of
             Inl e \<Rightarrow> Inl e
           | Inr kv' \<Rightarrow> Inr \<lparr>last_row = Some r, res_data = Some kv', data = dat\<rparr>))"

definition collate_step :: "collator \<Rightarrow> row \<Rightarrow> error + collator" where
  "collate_step s r =
     (case last_row s of
        None \<Rightarrow> store_row r (Some (init_res_data r)) (data s)
      | Some lr \<Rightarrow>
          if resource_id r \<noteq> resource_id lr \<and> truthy_dict (res_data s) then
            (case save_res_data lr (the (res_data s)) (data s) of
               Inl e \<Rightarrow> Inl e
             | Inr dat \<Rightarrow> store_row r (Some (init_res_data r)) dat)
          else store_row r (res_data s) (data s))"

fun collate_loop :: "collator \<Rightarrow> row list \<Rightarrow> error + collator" where
  "collate_loop s [] = Inr s"
| "collate_loop s (r # rs) =
     (case collate_step s r of Inl e \<Rightarrow> Inl e | Inr s' \<Rightarrow> collate_loop s' rs)"

definition collate :: "row list \<Rightarrow> error + odict list" where
  "collate rows =
     (case collate_loop \<lparr>last_row = None, res_data = None, data = []\<rparr> rows of
        Inl e \<Rightarrow> Inl e
      | Inr s \<Rightarrow>
          if truthy_dict (res_data s) then
            save_res_data (last rows) (the (res_data s)) (data s)
          else Inr (data s))"

text \<open>The flush after the loop, as a function of what the loop returned.\<close>

definition finish :: "row \<Rightarrow> error + collator \<Rightarrow> error + odict list" where
  "finish r x =
     (case x of
        Inl e \<Rightarrow> Inl e
      | Inr s \<Rightarrow>
          if truthy_dict (res_data s) then save_res_data r (the (res_data s)) (data s)
          else Inr (data s))"

record scores_report =
  sr_publisher_name :: string
  sr_publisher_title :: string
  sr_broken_resources :: "odict list"

text \<open>
  The report from a row stream, and \<open>scores_by_dataset_for_organisation\<close> itself.
  \<open>row\<close> after the loop is the last row; it is read only when \<open>data\<close> is not empty.
\<close>

definition scores_report_of :: "row list \<Rightarrow> string \<Rightarrow> error + scores_report" where
  "scores_report_of rows organisation_name =
     (case collate rows of
        Inl e \<Rightarrow> Inl e
      | Inr dat \<Rightarrow>
          Inr \<lparr>sr_publisher_name =
                 (if dat \<noteq> [] then publisher_name (last rows) else organisation_name),
               sr_publisher_title =
                 (if dat \<noteq> [] then publisher_title (last rows) else ''''),
               sr_broken_resources = dat\<rparr>)"

definition scores_by_dataset_for_organisation :: "db \<Rightarrow> string \<Rightarrow> error + scores_report" where
  "scores_by_dataset_for_organisation d organisation_name =
     scores_report_of (scores_rows d organisation_name) organisation_name"

section \<open>The broken-link reports\<close>

text \<open>
  The sub-select shared by \<open>organisations_with_broken_resource_links\<close> and
  \<open>broken_resource_links_for_organisation\<close>. The \<open>status_filter\<close> is one
  \<^verbatim>\<open>task_status.value!='...'\<close> for every member of
  \<open>archiver_status__not_broken_link\<close>, joined by \<open>and\<close>.
\<close>

definition archiver_broken :: "db \<Rightarrow> string list" where
  "archiver_broken d =
     [ts_entity_id t. t \<leftarrow> db_task_status d,
        ts_task_type t = ''archiver'' \<and> ts_key t = ''status'' \<and>
        ts_value t \<notin> archiver_status__not_broken_link]"

definition broken_link_rows :: "db \<Rightarrow> (row \<Rightarrow> bool) \<Rightarrow> row list" where
  "broken_link_rows d org_filter =
     filter (\<lambda>j. ts_entity_id (j_ts j) \<in> set (archiver_broken d) \<and>
                   task_status_key j = ''status'' \<and> all_active j \<and> org_filter j)
       (joined_rows d)"

text \<open>
  The rows of \<open>organisations_with_broken_resource_links\<close>:
  \<^verbatim>\<open>group by "group".name, "group".title order by "group".title\<close>, with
  \<^verbatim>\<open>count(distinct(package.id))\<close> and \<^verbatim>\<open>count(resource.id)\<close>.
\<close>

record count_row =
  cr_broken_package_count :: nat
  cr_broken_resource_count :: nat
  cr_publisher_name :: string
  cr_publisher_title :: string

definition count_rows :: "db \<Rightarrow> count_row list" where
  "count_rows d =
     (let js = broken_link_rows d (\<lambda>j. True) in
      sort_key cr_publisher_title
        [\<lparr>cr_broken_package_count =
             length (remdups [package_id j.
                        j \<leftarrow> js, (publisher_name j, publisher_title j) = (n, t)]),
           cr_broken_resource_count =
             length [j \<leftarrow> js. (publisher_name j, publisher_title j) = (n, t)],
           cr_publisher_name = n, cr_publisher_title = t\<rparr>.
           (n, t) \<leftarrow> remdups (map (\<lambda>j. (publisher_name j, publisher_title j)) js)])"

definition count_row_data :: "string \<Rightarrow> string \<Rightarrow> nat \<Rightarrow> nat \<Rightarrow> odict" where
  "count_row_data title name pc rc =
     [(''publisher_title'', VStr title),
      (''publisher_name'', VStr name),
      (''broken_package_count'', VInt (int pc)),
      (''broken_resource_count'', VInt (int rc))]"

text \<open>
  \<open>counts_by_publisher\<close> is a dictionary from publisher objects to a pair of counts;
  one SQLAlchemy session has one object per group row, so the key is the group. The
  model keeps the keys in the order of their insertion (Python leaves the order of a
  \<open>dict\<close> open).
\<close>

type_synonym counts = "(group \<times> nat \<times> nat) list"

definition add_counts :: "count_row \<Rightarrow> group \<Rightarrow> counts \<Rightarrow> counts" where
  "add_counts r publisher c =
     (let (a, b) = (case map_of c publisher of None \<Rightarrow> (0, 0) | Some ab \<Rightarrow> ab) in
      AList.update publisher
        (a + cr_broken_package_count r, b + cr_broken_resource_count r) c)"

text \<open>
  \<open>go_up_tree\<close> and \<open>go_down_tree\<close> are functions of another package
  (\<open>ckanext.dgu.lib.publisher\<close>) and are parameters here: the publishers from the given
  one up to its root, and the given one with its descendants. Both read attributes of
  their argument, so the \<open>None\<close> that \<open>Group.by_name\<close> gives for an unknown name is an
  \<open>AttributeError\<close>.
\<close>

fun rollup :: "db \<Rightarrow> (group \<Rightarrow> group list) \<Rightarrow> counts \<Rightarrow> count_row list \<Rightarrow> error + counts" where
  "rollup d go_up_tree c [] = Inr c"
| "rollup d go_up_tree c (r # rs) =
     (case Group_by_name d (cr_publisher_name r) of
        None \<Rightarrow> Inl AttributeError
      | Some g \<Rightarrow> rollup d go_up_tree (fold (add_counts r) (go_up_tree g) c) rs)"

definition organisations_with_broken_resource_links ::
  "db \<Rightarrow> (group \<Rightarrow> group list) \<Rightarrow> bool \<Rightarrow> error + odict list" where
  "organisations_with_broken_resource_links d go_up_tree include_sub_organisations =
     (if \<not> include_sub_organisations then
        Inr [count_row_data (cr_publisher_title r) (cr_publisher_name r)
               (cr_broken_package_count r) (cr_broken_resource_count r).
             r \<leftarrow> count_rows d]
      else
        case rollup d go_up_tree [] (count_rows d) of
          Inl e \<Rightarrow> Inl e
        | Inr counts_by_publisher \<Rightarrow>
            Inr [count_row_data (grp_title g) (grp_name g) pc rc.
                 (g, pc, rc) \<leftarrow> sort_key (\<lambda>x. grp_title (fst x)) counts_by_publisher])"

text \<open>
  What \<open>json.loads\<close> returns. The function is the library's and a parameter of the
  report: \<open>Inl ValueError\<close> for a text that is not JSON.
\<close>

datatype json =
    JNull | JBool bool | JNumber int | JString string
  | JArray "json list" | JObject "(string \<times> json) list"

text \<open>
  One row of \<open>broken_resource_links_for_organisation\<close>. The loop over
  \<open>item_properties.items()\<close> tests \<open>key in item_properties_as_dates\<close> first, and the
  module binds no such name (the set of the line above the query is
  \<open>archival_properties_as_dates\<close>): the first item raises \<open>NameError\<close>. A JSON value
  that is no object has no \<open>items\<close>.
\<close>

definition link_row_base :: "row \<Rightarrow> odict" where
  "link_row_base r =
     [(''dataset_title'', VStr (package_title r)),
      (''dataset_name'', VStr (package_name r)),
      (''publisher_title'', VStr (publisher_title r)),
      (''publisher_name'', VStr (publisher_name r)),
      (''resource_position'', VInt (position r)),
      (''resource_id'', VStr (resource_id r)),
      (''resource_url'', VStr (resource_url r)),
      (''status'', VStr (task_status_value r))]"

definition set_last_updated :: "row \<Rightarrow> odict \<Rightarrow> odict" where
  "set_last_updated r row_data =
     AList.update ''last_updated'' (VTime (task_status_last_updated r)) row_data"

definition link_row_data :: "(string \<Rightarrow> error + json) \<Rightarrow> row \<Rightarrow> error + odict" where
  "link_row_data json_loads r =
     (let row_data = link_row_base r in
      if task_status_error r \<noteq> [] then
        (case json_loads (task_status_error r) of
           Inl e \<Rightarrow> Inl e
         | Inr (JObject item_properties) \<Rightarrow>
             if item_properties = [] then Inr (set_last_updated r row_data)
             else Inl NameError
         | Inr _ \<Rightarrow> Inl AttributeError)
      else Inr (set_last_updated r row_data))"

fun link_rows_data :: "(string \<Rightarrow> error + json) \<Rightarrow> row list \<Rightarrow> error + odict list" where
  "link_rows_data json_loads [] = Inr []"
| "link_rows_data json_loads (r # rs) =
     (case link_row_data json_loads r of
        Inl e \<Rightarrow> Inl e
      | Inr row_data \<Rightarrow>
          (case link_rows_data json_loads rs of
             Inl e \<Rightarrow> Inl e
           | Inr dat \<Rightarrow> Inr (row_data # dat)))"

text \<open>
  The \<open>org_filter\<close>: the organisation of that name, or any of the names of
  \<open>go_down_tree(org)\<close>.
\<close>

definition org_filter ::
  "db \<Rightarrow> (group \<Rightarrow> group list) \<Rightarrow> string \<Rightarrow> bool \<Rightarrow> error + (row \<Rightarrow> bool)" where
  "org_filter d go_down_tree organisation_name include_sub_organisations =
     (if \<not> include_sub_organisations then Inr (\<lambda>j. publisher_name j = organisation_name)
      else
        case Group_by_name d organisation_name of
          None \<Rightarrow> Inl AttributeError
        | Some org \<Rightarrow> Inr (\<lambda>j. publisher_name j \<in> set (map grp_name (go_down_tree org))))"

record org_report =
  or_publisher_name :: string
  or_publisher_title :: string
  or_data :: "odict list"

definition broken_resource_links_for_organisation ::
  "(string \<Rightarrow> error + json) \<Rightarrow> (group \<Rightarrow> group list) \<Rightarrow> db \<Rightarrow> string \<Rightarrow> bool \<Rightarrow>
     error + org_report" where
  "broken_resource_links_for_organisation json_loads go_down_tree d organisation_name
       include_sub_organisations =
     (case org_filter d go_down_tree organisation_name include_sub_organisations of
        Inl e \<Rightarrow> Inl e
      | Inr f \<Rightarrow>
          (case link_rows_data json_loads (order_by_package (broken_link_rows d f)) of
             Inl e \<Rightarrow> Inl e
           | Inr dat \<Rightarrow>
               (case Group_by_name d organisation_name of
                  None \<Rightarrow> Inl AttributeError
                | Some g \<Rightarrow>
                    Inr \<lparr>or_publisher_name = organisation_name,
                         or_publisher_title = grp_title g,
                         or_data = dat\<rparr>)))"

section \<open>The dataset score reports\<close>

text \<open>
  \<open>if id:\<close> holds for a string that is not empty; \<open>None\<close> (the default of
  \<open>five_stars\<close>) and the empty string are false.
\<close>

definition truthy_id :: "string option \<Rightarrow> bool" where
  "truthy_id i = (case i of None \<Rightarrow> False | Some s \<Rightarrow> s \<noteq> [])"

text \<open>
  \<open>model.Package.get\<close> finds a package by its id, then by its name;
  \<open>model.Resource.get\<close> finds a resource by its id. Neither looks at the state.
\<close>

definition Package_get :: "db \<Rightarrow> string \<Rightarrow> package option" where
  "Package_get d reference =
     (case find (\<lambda>p. pkg_id p = reference) (db_package d) of
        Some p \<Rightarrow> Some p
      | None \<Rightarrow> find (\<lambda>p. pkg_name p = reference) (db_package d))"

definition Resource_get :: "db \<Rightarrow> string \<Rightarrow> resource option" where
  "Resource_get d reference = find (\<lambda>r. res_id r = reference) (db_resource d)"

text \<open>
  The query of \<open>five_stars\<close>: packages joined with their resource groups, resources
  and status rows of key \<open>openness_score\<close>, all active, grouped by name and title
  with \<open>max(task_status.value)\<close>, ordered by title. The column is text, so the
  maximum is the one of the text order.
\<close>

definition five_stars_join :: "db \<Rightarrow> (package \<times> task_status) list" where
  "five_stars_join d =
     [(p, t).
        p \<leftarrow> db_package d,
        rg \<leftarrow> db_resource_group d, pkg_id p = rg_package_id rg,
        r \<leftarrow> db_resource d, res_resource_group_id r = rg_id rg,
        t \<leftarrow> db_task_status d, ts_entity_id t = res_id r,
        ts_key t = ''openness_score'' \<and> pkg_state p = ''active'' \<and>
        res_state r = ''active'' \<and> rg_state rg = ''active'']"

record score_entry =
  se_name :: string
  se_title :: string
  se_openness_score :: string

definition five_stars_query :: "(package \<times> task_status) list \<Rightarrow> score_entry list" where
  "five_stars_query js =
     sort_key se_title
       [\<lparr>se_name = n, se_title = t,
          se_openness_score =
            Max (set [ts_value s. (p, s) \<leftarrow> js, (pkg_name p, pkg_title p) = (n, t)])\<rparr>.
        (n, t) \<leftarrow> remdups (map (\<lambda>(p, s). (pkg_name p, pkg_title p)) js)]"

datatype five_stars_result = Sentinel string | Listing "score_entry list"

definition five_stars :: "db \<Rightarrow> string option \<Rightarrow> five_stars_result" where
  "five_stars d i =
     (if truthy_id i then
        (case Package_get d (the i) of
           None \<Rightarrow> Sentinel ''Not found''
         | Some pkg \<Rightarrow>
             Listing (five_stars_query
               (filter (\<lambda>(p, s). pkg_id p = pkg_id pkg) (five_stars_join d))))
      else Listing (five_stars_query (five_stars_join d)))"

text \<open>
  \<open>int\<close> of a string: a decimal literal with an optional sign, white space around
  it allowed; anything else is a \<open>ValueError\<close>.
\<close>

definition is_space :: "char \<Rightarrow> bool" where
  "is_space c \<longleftrightarrow> c \<in> {CHR '' '', CHR 0x09, CHR 0x0A, CHR 0x0B, CHR 0x0C, CHR 0x0D}"

definition strip :: "string \<Rightarrow> string" where
  "strip s = rev (dropWhile is_space (rev (dropWhile is_space s)))"

definition digit_of :: "char \<Rightarrow> nat option" where
  "digit_of c =
     (if CHR ''0'' \<le> c \<and> c \<le> CHR ''9'' then Some (of_char c - of_char CHR ''0'')
      else None)"

fun digits_value :: "nat \<Rightarrow> string \<Rightarrow> nat option" where
  "digits_value acc [] = Some acc"
| "digits_value acc (c # cs) =
     (case digit_of c of None \<Rightarrow> None | Some k \<Rightarrow> digits_value (10 * acc + k) cs)"

definition unsigned_int :: "string \<Rightarrow> error + int" where
  "unsigned_int s =
     (if s = [] then Inl ValueError
      else case digits_value 0 s of None \<Rightarrow> Inl ValueError | Some n \<Rightarrow> Inr (int n))"

definition py_int :: "string \<Rightarrow> error + int" where
  "py_int s =
     (case strip s of
        [] \<Rightarrow> Inl ValueError
      | c # cs \<Rightarrow>
          if c = CHR ''-'' then map_sum id uminus (unsigned_int cs)
          else if c = CHR ''+'' then unsigned_int cs
          else unsigned_int (c # cs))"

text \<open>
  The action \<open>task_status_show\<close> for an entity, a task type and a key: the status row,
  or \<open>ObjectNotFound\<close> (here \<open>None\<close>), which \<open>resource_five_stars\<close> catches.
\<close>

definition task_status_show :: "db \<Rightarrow> string \<Rightarrow> string \<Rightarrow> string \<Rightarrow> task_status option" where
  "task_status_show d entity_id task_type key =
     find (\<lambda>t. ts_entity_id t = entity_id \<and> ts_task_type t = task_type \<and> ts_key t = key)
       (db_task_status d)"

text \<open>
  \<open>resource_five_stars\<close> binds \<open>r\<close> under \<open>if id:\<close> only and reads \<open>r.id\<close> after it.
  The result is a plain dictionary, \<open>{}\<close> being the empty list.
\<close>

definition resource_scores :: "db \<Rightarrow> resource \<Rightarrow> error + odict" where
  "resource_scores d r =
     (case task_status_show d (res_id r) ''qa'' ''openness_score'' of
        None \<Rightarrow> Inr []
      | Some status \<Rightarrow>
          (case py_int (ts_value status) of
             Inl e \<Rightarrow> Inl e
           | Inr openness_score \<Rightarrow>
               (case task_status_show d (res_id r) ''qa'' ''openness_score_reason'' of
                  None \<Rightarrow> Inr []
                | Some status' \<Rightarrow>
                    Inr [(''openness_score'', VInt openness_score),
                         (''openness_score_reason'', VStr (ts_value status')),
                         (''openness_updated'',
                            VTime (max (ts_last_updated status) (ts_last_updated status')))])))"

definition resource_five_stars :: "db \<Rightarrow> string option \<Rightarrow> error + odict" where
  "resource_five_stars d i =
     (if truthy_id i then
        (case Resource_get d (the i) of
           None \<Rightarrow> Inr []
         | Some r \<Rightarrow> resource_scores d r)
      else Inl UnboundLocalError)"

text \<open>
  The query of \<open>organisation_dataset_scores\<close>: every status row of a resource that has
  a status row of task type \<open>qa\<close>, ordered by
  \<^verbatim>\<open>package.title, package.name, resource.position, task_status.key\<close>.
\<close>

definition qa_entities :: "db \<Rightarrow> string list" where
  "qa_entities d = [ts_entity_id t. t \<leftarrow> db_task_status d, ts_task_type t = ''qa'']"

definition dataset_scores_rows :: "db \<Rightarrow> (row \<Rightarrow> bool) \<Rightarrow> row list" where
  "dataset_scores_rows d f =
     sort_key (\<lambda>j. (package_title j, package_name j, position j, task_status_key j))
       (filter (\<lambda>j. ts_entity_id (j_ts j) \<in> set (qa_entities d) \<and> all_active j \<and> f j)
          (joined_rows d))"

text \<open>
  The \<open>OrderedDict\<close> kept for each dataset has the same ten keys throughout; the last
  six start as \<open>None\<close>.
\<close>

record package_data =
  pd_dataset_title :: string
  pd_dataset_name :: string
  pd_publisher_title :: string
  pd_publisher_name :: string
  pd_resource_position :: "int option"
  pd_resource_id :: "string option"
  pd_resource_url :: "string option"
  pd_openness_score :: "string option"
  pd_openness_score_reason :: "string option"
  pd_last_updated :: "nat option"

definition new_package_data :: "row \<Rightarrow> package_data" where
  "new_package_data r =
     \<lparr>pd_dataset_title = package_title r, pd_dataset_name = package_name r,
      pd_publisher_title = publisher_title r, pd_publisher_name = publisher_name r,
      pd_resource_position = None, pd_resource_id = None, pd_resource_url = None,
      pd_openness_score = None, pd_openness_score_reason = None,
      pd_last_updated = None\<rparr>"

text \<open>
  \<open>not package_data['openness_score']\<close> holds for \<open>None\<close> and for the empty string;
  \<open>row.task_status_value > package_data['openness_score']\<close> compares two strings.
\<close>

definition beats :: "string \<Rightarrow> string option \<Rightarrow> bool" where
  "beats v best = (case best of None \<Rightarrow> True | Some b \<Rightarrow> b = [] \<or> v > b)"

definition score_row :: "row \<Rightarrow> package_data \<Rightarrow> package_data" where
  "score_row r pd =
     (if task_status_key r = ''openness_score'' \<and>
         beats (task_status_value r) (pd_openness_score pd) then
        pd\<lparr>pd_resource_position := Some (position r),
           pd_resource_id := Some (resource_id r),
           pd_resource_url := Some (resource_url r),
           pd_openness_score := Some (task_status_value r),
           pd_openness_score_reason := None,
           pd_last_updated := Some (task_status_last_updated r)\<rparr>
      else if task_status_key r = ''openness_score_reason'' \<and>
              pd_resource_id pd = Some (resource_id r) then
        pd\<lparr>pd_openness_score_reason := Some (task_status_value r)\<rparr>
      else pd)"

text \<open>
  \<open>data\<close> maps a dataset name to its \<open>package_data\<close>; the model keeps the names in
  the order of their insertion.
\<close>

definition dataset_step :: "row \<Rightarrow> (string \<times> package_data) list \<Rightarrow> (string \<times> package_data) list" where
  "dataset_step r dat =
     (let pd = (case map_of dat (package_name r) of
                  None \<Rightarrow> new_package_data r
                | Some pd \<Rightarrow> pd)
      in AList.update (package_name r) (score_row r pd) dat)"

definition dataset_scores :: "row list \<Rightarrow> package_data list" where
  "dataset_scores rows = map snd (fold dataset_step rows [])"

record dataset_scores_report =
  ds_publisher_name :: string
  ds_publisher_title :: string
  ds_data :: "package_data list"

definition organisation_dataset_scores ::
  "(group \<Rightarrow> group list) \<Rightarrow> db \<Rightarrow> string \<Rightarrow> bool \<Rightarrow> error + dataset_scores_report" where
  "organisation_dataset_scores go_down_tree d organisation_name include_sub_organisations =
     (case org_filter d go_down_tree organisation_name include_sub_organisations of
        Inl e \<Rightarrow> Inl e
      | Inr f \<Rightarrow>
          (let dat = dataset_scores (dataset_scores_rows d f) in
           case Group_by_name d organisation_name of
             None \<Rightarrow> Inl AttributeError
           | Some g \<Rightarrow>
               Inr \<lparr>ds_publisher_name = organisation_name,
                    ds_publisher_title = grp_title g,
                    ds_data = dat\<rparr>))"

section \<open>The names the module binds\<close>

text \<open>
  Each \<open>def\<close> statement of the module, in the order of the file, with the names of
  its parameters and the line it starts at. Executing a \<open>def\<close> binds the name in
  the module's namespace, replacing what the name was bound to. A call with a keyword
  that is none of the function's parameters is a \<open>TypeError\<close>; a call of a name that
  is not bound is a \<open>NameError\<close>.
\<close>

record pydef =
  def_name :: string
  def_params :: "string list"
  def_line :: nat

definition module_defs :: "pydef list" where
  "module_defs =
     [\<lparr>def_name = ''five_stars'', def_params = [''id''], def_line = 46\<rparr>,
      \<lparr>def_name = ''resource_five_stars'', def_params = [''id''], def_line = 85\<rparr>,
      \<lparr>def_name = ''broken_resource_links_by_dataset'', def_params = [], def_line = 125\<rparr>,
      \<lparr>def_name = ''broken_resource_links_by_dataset_for_organisation'',
         def_params = [''organisation_id''], def_line = 158\<rparr>,
      \<lparr>def_name = ''organisations_with_broken_resource_links_by_name'',
         def_params = [], def_line = 173\<rparr>,
      \<lparr>def_name = ''organisations_with_broken_resource_links'',
         def_params = [''include_resources''], def_line = 178\<rparr>,
      \<lparr>def_name = ''scores_by_dataset_for_organisation'',
         def_params = [''organisation_name''], def_line = 185\<rparr>,
      \<lparr>def_name = ''organisations_with_broken_resource_links'',
         def_params = [''include_sub_organisations''], def_line = 266\<rparr>,
      \<lparr>def_name = ''broken_resource_links_for_organisation'',
         def_params = [''organisation_name'', ''include_sub_organisations''],
         def_line = 323\<rparr>,
      \<lparr>def_name = ''organisation_dataset_scores'',
         def_params = [''organisation_name'', ''include_sub_organisations''],
         def_line = 409\<rparr>]"

definition bind_def :: "pydef \<Rightarrow> (string \<rightharpoonup> pydef) \<Rightarrow> (string \<rightharpoonup> pydef)" where
  "bind_def f ns = ns(def_name f \<mapsto> f)"

definition module_namespace :: "string \<rightharpoonup> pydef" where
  "module_namespace = fold bind_def module_defs Map.empty"

definition call_with_keywords :: "string \<Rightarrow> string list \<Rightarrow> error + pydef" where
  "call_with_keywords name keywords =
     (case module_namespace name of
        None \<Rightarrow> Inl NameError
      | Some f \<Rightarrow>
          if list_all (\<lambda>k. k \<in> set (def_params f)) keywords then Inr f
          else Inl TypeError)"

text \<open>
  The other names the module binds before any report runs: the names of its
  \<open>import\<close> statements, the class \<open>DictObj\<close> and its four assignments. A global name
  is bound when it is one of these or the name of a \<open>def\<close>.
\<close>

definition module_bindings :: "string list" where
  "module_bindings =
     [''datetime'', ''re'', ''namedtuple'', ''defaultdict'', ''OrderedDict'', ''or_'',
      ''and_'', ''func'', ''model'', ''p'', ''model_dictize'', ''json'', ''go_down_tree'',
      ''go_up_tree'', ''logging'', ''log'', ''resource_dictize'', ''DictObj'',
      ''not_broken_but_0_stars'', ''archiver_status__not_broken_link'']"

definition global_bound :: "string \<Rightarrow> bool" where
  "global_bound name \<longleftrightarrow> name \<in> set module_bindings \<or> module_namespace name \<noteq> None"

section \<open>broken_resource_links_by_dataset_for_organisation\<close>

text \<open>
  The first statement of \<open>broken_resource_links_by_dataset_for_organisation\<close> calls
  \<open>_get_broken_resource_links\<close>, a name that \<^verbatim>\<open>reports.py\<close> neither defines nor
  imports and that is no builtin: evaluating the name raises \<open>NameError\<close>, and the
  rest of the body is not reached. What the name would be bound to is the first argument here, so that the
  rest of the body can be written down: its result maps a pair (title, id) of an
  organisation to a dictionary of packages, and the report takes the first item.
\<close>

record 'a dataset_report =
  dr_id :: string
  dr_title :: string
  dr_packages :: "'a list"

definition broken_resource_links_by_dataset_for_organisation ::
  "(string \<Rightarrow> error + ((string \<times> string) \<times> 'a list) list) \<Rightarrow> string \<Rightarrow>
     error + 'a dataset_report" where
  "broken_resource_links_by_dataset_for_organisation get_broken_resource_links
       organisation_id =
     (if \<not> global_bound ''_get_broken_resource_links'' then Inl NameError
      else
        (case get_broken_resource_links organisation_id of
           Inl e \<Rightarrow> Inl e
         | Inr [] \<Rightarrow> Inr \<lparr>dr_id = [], dr_title = [], dr_packages = []\<rparr>
         | Inr (((title, id_), package_resource_dict) # _) \<Rightarrow>
             Inr \<lparr>dr_id = id_, dr_title = title, dr_packages = package_resource_dict\<rparr>))"

section \<open>The collation as the specification words it\<close>

text \<open>
  The specification describes the collator by what it delivers: the stream is cut
  into runs of adjacent rows of one resource; each run is consolidated into one
  record (the base fields of its first row, then the pair of every row, with the
  greatest time stamp of the run); the records are flushed in order. These
  definitions follow that description; the theorems below compare them with the loop
  of the source.
\<close>

function runs :: "row list \<Rightarrow> row list list" where
  "runs [] = []"
| "runs (r # rs) =
     (r # takeWhile (\<lambda>x. resource_id x = resource_id r) rs) #
     runs (dropWhile (\<lambda>x. resource_id x = resource_id r) rs)"
  by pat_completeness auto
termination
  by (relation "measure length") (auto simp: length_dropWhile_le less_Suc_eq_le)

fun merge_rows :: "row list \<Rightarrow> odict \<Rightarrow> error + odict" where
  "merge_rows [] rd = Inr rd"
| "merge_rows (r # rs) rd =
     (case merge_row r rd of Inl e \<Rightarrow> Inl e | Inr rd' \<Rightarrow> merge_rows rs rd')"

definition consolidate :: "row list \<Rightarrow> error + odict" where
  "consolidate g = merge_rows g (init_res_data (hd g))"

fun deliver :: "row list list \<Rightarrow> odict list \<Rightarrow> error + odict list" where
  "deliver [] dat = Inr dat"
| "deliver (g # gs) dat =
     (case consolidate g of
        Inl e \<Rightarrow> Inl e
      | Inr rd \<Rightarrow>
          (case save_res_data (last g) rd dat of
             Inl e \<Rightarrow> Inl e
           | Inr dat' \<Rightarrow> deliver gs dat'))"

text \<open>
  The pairs of a run as a map (a later row of the same key wins), and whether a
  record is one that \<open>save_res_data\<close> drops.
\<close>

definition status_pairs :: "row list \<Rightarrow> (string \<rightharpoonup> val)" where
  "status_pairs g = map_of (rev (map (\<lambda>r. (task_status_key r, VStr (task_status_value r))) g))"

definition excluded :: "odict \<Rightarrow> bool" where
  "excluded rd =
     (case map_of rd ''openness_score_reason'' of
        None \<Rightarrow> False
      | Some v \<Rightarrow> in_strings v not_broken_but_0_stars)"

text \<open>
  The record the specification expects of a run, as a map: the five base fields of
  the first row, overlaid with the pairs of the rows, and the greatest time stamp of
  the rows under \<open>openness_score_updated\<close>. And whether the reason among the pairs of
  a run is in \<open>not_broken_but_0_stars\<close>.
\<close>

definition record_of :: "row list \<Rightarrow> (string \<rightharpoonup> val)" where
  "record_of g =
     (map_of [(''package_name'', VStr (package_name (hd g))),
              (''package_title'', VStr (package_title (hd g))),
              (''resource_id'', VStr (resource_id (hd g))),
              (''resource_url'', VStr (resource_url (hd g))),
              (''resource_position'', VInt (position (hd g)))] ++ status_pairs g)
     (''openness_score_updated'' \<mapsto> VTime (Max (task_status_last_updated ` set g)))"

definition run_excluded :: "row list \<Rightarrow> bool" where
  "run_excluded g =
     (case status_pairs g ''openness_score_reason'' of
        Some (VStr s) \<Rightarrow> s \<in> not_broken_but_0_stars
      | _ \<Rightarrow> False)"

text \<open>
  The count a report of counts gives for an organisation: the one of its row, and 0
  for an organisation that has no row.
\<close>

definition reported_count :: "odict list \<Rightarrow> string \<Rightarrow> string \<Rightarrow> int" where
  "reported_count rows n k =
     (case find (\<lambda>r. map_of r ''publisher_name'' = Some (VStr n)) rows of
        None \<Rightarrow> 0
      | Some r \<Rightarrow> (case map_of r k of Some (VInt c) \<Rightarrow> c | _ \<Rightarrow> 0))"

text \<open>
  The pair of counts that \<open>counts_by_publisher\<close> holds for a publisher, and (0, 0) for
  one that is not a key.
\<close>

definition look :: "counts \<Rightarrow> group \<Rightarrow> nat \<times> nat" where
  "look c P = (case map_of c P of None \<Rightarrow> (0, 0) | Some ab \<Rightarrow> ab)"

text \<open>
  For the score of a dataset: the \<open>openness_score\<close> rows of a dataset in a stream,
  the greatest of their values in the order of strings, the first row that has it,
  the number a score denotes, and whether a score is a single digit.
\<close>

definition score_rows :: "row list \<Rightarrow> string \<Rightarrow> row list" where
  "score_rows rows n =
     [r \<leftarrow> rows. package_name r = n \<and> task_status_key r = ''openness_score'']"

definition best_score :: "row list \<Rightarrow> string" where
  "best_score S = Max (set (map task_status_value S))"

definition first_best :: "row list \<Rightarrow> row" where
  "first_best S = hd [r \<leftarrow> S. task_status_value r = best_score S]"

definition score_int :: "string \<Rightarrow> int" where
  "score_int s = (case py_int s of Inl e \<Rightarrow> 0 | Inr i \<Rightarrow> i)"

definition one_digit :: "string \<Rightarrow> bool" where
  "one_digit s = (case s of [c] \<Rightarrow> digit_of c \<noteq> None | _ \<Rightarrow> False)"

definition scored :: "row list \<Rightarrow> string \<Rightarrow> package_data \<Rightarrow> bool" where
  "scored rows n pd \<longleftrightarrow>
     pd_dataset_name pd = n \<and>
     (if score_rows rows n = [] then pd_openness_score pd = None
      else pd_openness_score pd = Some (best_score (score_rows rows n)) \<and>
           pd_resource_id pd = Some (resource_id (first_best (score_rows rows n))))"

section \<open>A concrete record store\<close>

text \<open>
  The organisation \<open>alpha\<close> with its child \<open>alpha-sub\<close>; dataset \<open>D1\<close> of \<open>alpha\<close> with
  resources \<open>r1\<close> (score 0, not found) and \<open>r2\<close> (score 10); dataset \<open>D2\<close> of
  \<open>alpha-sub\<close> with \<open>r3\<close> and \<open>r4\<close>, whose reason is that the file was not
  downloaded by choice, and \<open>r5\<close>, which has no status row yet.
\<close>

definition status :: "string \<Rightarrow> string \<Rightarrow> string \<Rightarrow> string \<Rightarrow> nat \<Rightarrow> task_status" where
  "status e ty k v t =
     \<lparr>ts_entity_id = e, ts_task_type = ty, ts_key = k, ts_value = v, ts_error = [],
      ts_last_updated = t\<rparr>"

definition alpha :: group where
  "alpha = \<lparr>grp_id = ''g1'', grp_name = ''alpha'', grp_title = ''Alpha'',
            grp_state = ''active''\<rparr>"

definition alpha_sub :: group where
  "alpha_sub = \<lparr>grp_id = ''g2'', grp_name = ''alpha-sub'', grp_title = ''Alpha Sub'',
                grp_state = ''active''\<rparr>"

definition scenario :: db where
  "scenario =
     \<lparr>db_package =
        [\<lparr>pkg_id = ''p1'', pkg_name = ''d1'', pkg_title = ''D1'', pkg_state = ''active''\<rparr>,
         \<lparr>pkg_id = ''p2'', pkg_name = ''d2'', pkg_title = ''D2'', pkg_state = ''active''\<rparr>],
      db_resource_group =
        [\<lparr>rg_id = ''rg1'', rg_package_id = ''p1'', rg_state = ''active''\<rparr>,
         \<lparr>rg_id = ''rg2'', rg_package_id = ''p2'', rg_state = ''active''\<rparr>],
      db_resource =
        [\<lparr>res_id = ''r1'', res_resource_group_id = ''rg1'', res_url = ''http://a/1'',
          res_position = 0, res_state = ''active''\<rparr>,
         \<lparr>res_id = ''r2'', res_resource_group_id = ''rg1'', res_url = ''http://a/2'',
          res_position = 1, res_state = ''active''\<rparr>,
         \<lparr>res_id = ''r3'', res_resource_group_id = ''rg2'', res_url = ''http://a/3'',
          res_position = 0, res_state = ''active''\<rparr>,
         \<lparr>res_id = ''r4'', res_resource_group_id = ''rg2'', res_url = ''http://a/4'',
          res_position = 1, res_state = ''active''\<rparr>,
         \<lparr>res_id = ''r5'', res_resource_group_id = ''rg2'', res_url = ''http://a/5'',
          res_position = 2, res_state = ''active''\<rparr>],
      db_task_status =
        [status ''r1'' ''archiver'' ''status'' ''0'' 5,
         status ''r1'' ''qa'' ''openness_score'' ''0'' 10,
         status ''r1'' ''qa'' ''openness_score_reason'' ''Not found'' 11,
         status ''r2'' ''archiver'' ''status'' ''Archived successfully'' 6,
         status ''r2'' ''qa'' ''openness_score'' ''10'' 12,
         status ''r2'' ''qa'' ''openness_score_reason'' ''Content is csv'' 13,
         status ''r3'' ''archiver'' ''status'' ''Chose not to download'' 7,
         status ''r3'' ''qa'' ''openness_score'' ''0'' 14,
         status ''r3'' ''qa'' ''openness_score_reason'' ''Chose not to download'' 15,
         status ''r4'' ''archiver'' ''status'' ''0'' 8,
         status ''r4'' ''qa'' ''openness_score'' ''0'' 17,
         status ''r4'' ''qa'' ''openness_score_reason'' ''Chose not to download'' 16],
      db_member =
        [\<lparr>mem_table_id = ''p1'', mem_group_id = ''g1''\<rparr>,
         \<lparr>mem_table_id = ''p2'', mem_group_id = ''g2''\<rparr>],
      db_group = [alpha, alpha_sub]\<rparr>"

text \<open>The two walks of this hierarchy and its parent links, and \<open>json.loads\<close> on the
  payloads of the examples: the empty object, and texts that are not JSON.\<close>

definition scenario_up :: "group \<Rightarrow> group list" where
  "scenario_up g = (if g = alpha_sub then [alpha_sub, alpha] else [g])"

definition scenario_down :: "group \<Rightarrow> group list" where
  "scenario_down g = (if g = alpha then [alpha, alpha_sub] else [g])"

definition example_loads :: "string \<Rightarrow> error + json" where
  "example_loads s = (if s = ''{}'' then Inr (JObject []) else Inl ValueError)"

definition scenario_parent :: "group \<Rightarrow> group option" where
  "scenario_parent g = (if g = alpha_sub then Some alpha else None)"

text \<open>
  The same store with other status rows: \<open>r1\<close> with a reason and no score and \<open>r4\<close>
  with a score and no reason; \<open>r4\<close> with an error payload that is not JSON; and
  \<open>r1\<close> and \<open>r2\<close> with the scores 9 and 10.
\<close>

definition scenario_partial :: db where
  "scenario_partial =
     scenario\<lparr>db_task_status :=
       [status ''r1'' ''archiver'' ''status'' ''0'' 5,
        status ''r1'' ''qa'' ''openness_score_reason'' ''Not found'' 11,
        status ''r4'' ''archiver'' ''status'' ''0'' 8,
        status ''r4'' ''qa'' ''openness_score'' ''0'' 17]\<rparr>"

text \<open>The records of \<open>r1\<close> that the collator builds from the first two stores.\<close>

definition r1_record :: odict where
  "r1_record =
     [(''package_name'', VStr ''d1''), (''package_title'', VStr ''D1''),
      (''resource_id'', VStr ''r1''), (''resource_url'', VStr ''http://a/1''),
      (''resource_position'', VInt 0), (''status'', VStr ''0''),
      (''openness_score_updated'', VTime 11), (''openness_score'', VStr ''0''),
      (''openness_score_reason'', VStr ''Not found'')]"

definition r1_partial_record :: odict where
  "r1_partial_record =
     [(''package_name'', VStr ''d1''), (''package_title'', VStr ''D1''),
      (''resource_id'', VStr ''r1''), (''resource_url'', VStr ''http://a/1''),
      (''resource_position'', VInt 0), (''status'', VStr ''0''),
      (''openness_score_updated'', VTime 11),
      (''openness_score_reason'', VStr ''Not found'')]"

text \<open>What \<open>organisation_dataset_scores\<close> keeps for the dataset \<open>D2\<close>.\<close>

definition d2_scores :: package_data where
  "d2_scores =
     \<lparr>pd_dataset_title = ''D2'', pd_dataset_name = ''d2'',
      pd_publisher_title = ''Alpha Sub'', pd_publisher_name = ''alpha-sub'',
      pd_resource_position = Some 0, pd_resource_id = Some ''r3'',
      pd_resource_url = Some ''http://a/3'', pd_openness_score = Some ''0'',
      pd_openness_score_reason = Some ''Chose not to download'',
      pd_last_updated = Some 14\<rparr>"

definition scenario_payload :: db where
  "scenario_payload =
     scenario\<lparr>db_task_status :=
       [status ''r1'' ''archiver'' ''status'' ''URL invalid'' 5,
        (status ''r4'' ''archiver'' ''status'' ''Download error'' 8)\<lparr>ts_error := ''{''\<rparr>]\<rparr>"

definition scenario_nine_ten :: db where
  "scenario_nine_ten =
     scenario\<lparr>db_task_status :=
       [status ''r1'' ''qa'' ''openness_score'' ''9'' 10,
        status ''r2'' ''qa'' ''openness_score'' ''10'' 12]\<rparr>"

text \<open>The same store with a status row of \<open>r1\<close> whose key is \<open>openness_score_updated\<close>.\<close>

definition scenario_stamp :: db where
  "scenario_stamp =
     scenario\<lparr>db_task_status :=
       [status ''r1'' ''archiver'' ''status'' ''0'' 5,
        status ''r1'' ''qa'' ''openness_score_reason'' ''Not found'' 11,
        status ''r1'' ''qa'' ''openness_score_updated'' ''2012-06-01'' 12]\<rparr>"

text \<open>The same store after the dataset \<open>D1\<close> and its resource \<open>r1\<close> were deleted.\<close>

definition scenario_deleted :: db where
  "scenario_deleted =
     scenario\<lparr>db_package :=
                map (\<lambda>p. if pkg_id p = ''p1'' then p\<lparr>pkg_state := ''deleted''\<rparr> else p)
                  (db_package scenario),
              db_resource :=
                map (\<lambda>r. if res_id r = ''r1'' then r\<lparr>res_state := ''deleted''\<rparr> else r)
                  (db_resource scenario)\<rparr>"

definition no_links :: "string \<Rightarrow> error + ((string \<times> string) \<times> unit list) list" where
  "no_links organisation_id = Inr []"

section \<open>Facts about the queries\<close>

lemma collate_Nil: "collate [] = Inr []"
  by (simp add: collate_def truthy_dict_def)

lemma joined_rows_group: "j \<in> set (joined_rows d) \<Longrightarrow> j_grp j \<in> set (db_group d)"
  by (auto simp: joined_rows_def)

lemma scores_rows_no_group:
  assumes "\<forall>g \<in> set (db_group d). grp_name g = n \<longrightarrow> grp_state g \<noteq> ''active''"
  shows "scores_rows d n = []"
proof -
  have "\<not> (all_active j \<and> publisher_name j = n)" if "j \<in> set (joined_rows d)" for j
    using joined_rows_group [OF that] assms
    by (auto simp: all_active_def publisher_name_def)
  then have "filter (\<lambda>j. ts_entity_id (j_ts j) \<in> set (archiver_status_0 d) \<and> all_active j \<and>
                     publisher_name j = n) (joined_rows d) = []"
    by (auto simp: filter_empty_conv)
  then show ?thesis
    by (simp add: scores_rows_def order_by_package_def)
qed

lemma by_dataset_unbound:
  "broken_resource_links_by_dataset_for_organisation helper organisation_id = Inl NameError"
proof -
  have "\<not> global_bound ''_get_broken_resource_links''"
    by code_simp
  then show ?thesis
    by (simp add: broken_resource_links_by_dataset_for_organisation_def)
qed

section \<open>C2: an organisation name that matches no organisation\<close>

text \<open>
  C2 says that the three reports of one organisation return an empty report, with
  empty title and empty id or name, for a name that matches no live organisation,
  and let no exception out. On the code that is not so:
  \<open>scores_by_dataset_for_organisation\<close> puts the requested name into
  \<open>publisher_name\<close> (\<open>row.publisher_name if data else organisation_name\<close>);
  \<open>broken_resource_links_for_organisation\<close> reads \<open>.title\<close> of the \<open>None\<close> that
  \<open>Group.by_name\<close> returns; and \<open>broken_resource_links_by_dataset_for_organisation\<close>
  calls a name that is not bound.
\<close>

theorem C2_counterexample:
  "scores_by_dataset_for_organisation scenario ''beta'' =
     Inr \<lparr>sr_publisher_name = ''beta'', sr_publisher_title = [],
          sr_broken_resources = []\<rparr> \<and>
   broken_resource_links_for_organisation example_loads scenario_down scenario ''beta''
     False = Inl AttributeError \<and>
   broken_resource_links_by_dataset_for_organisation no_links ''beta'' = Inl NameError"
  by code_simp

text \<open>
  C2 as amended: when no active organisation has the name,
  \<open>scores_by_dataset_for_organisation\<close> returns, without raising, the report with the
  requested name, the empty title and no rows. Nothing is said of
  \<open>broken_resource_links_for_organisation\<close> and of
  \<open>broken_resource_links_by_dataset_for_organisation\<close>, which raise.
\<close>

theorem C2_unknown_organisation:
  "(\<forall>g \<in> set (db_group d). grp_name g = n \<longrightarrow> grp_state g \<noteq> ''active'') \<longrightarrow>
     scores_by_dataset_for_organisation d n =
       Inr \<lparr>sr_publisher_name = n, sr_publisher_title = [], sr_broken_resources = []\<rparr>"
  by (simp add: scores_rows_no_group scores_by_dataset_for_organisation_def
      scores_report_of_def collate_Nil)

theorem C2_unknown_organisation_witness:
  "scores_by_dataset_for_organisation scenario ''beta'' =
     Inr \<lparr>sr_publisher_name = ''beta'', sr_publisher_title = [],
          sr_broken_resources = []\<rparr>"
proof -
  have h1: "\<forall>g \<in> set (db_group scenario). grp_name g = ''beta'' \<longrightarrow> grp_state g \<noteq> ''active''"
    by (simp add: scenario_def alpha_def alpha_sub_def)
  from C2_unknown_organisation [of scenario "''beta''"] h1 show ?thesis
    by blast
qed

section \<open>C7: a dataset or a resource that is not found\<close>

lemma five_stars_join_active:
  "(p, s) \<in> set (five_stars_join d) \<Longrightarrow> p \<in> set (db_package d) \<and> pkg_state p = ''active''"
  by (auto simp: five_stars_join_def)

lemma five_stars_query_Nil: "five_stars_query [] = []"
  by (simp add: five_stars_query_def)

text \<open>
  C7 says that \<open>five_stars\<close> returns the sentinel for every dataset id that matches no
  live dataset, and that \<open>resource_five_stars\<close> returns an empty result, and does not
  raise, for every resource id that matches no live resource. Two kinds of id match
  no live dataset or resource and are treated otherwise. The empty string: both
  functions test \<open>if id:\<close> before they look the id up, \<open>five_stars\<close> then lists the
  whole catalogue, and \<open>resource_five_stars\<close> reads \<open>r\<close>, which it has not bound. And
  the id of a deleted dataset or resource: \<open>Package.get\<close> and \<open>Resource.get\<close> do not
  look at the state, so \<open>five_stars\<close> goes on to the query, which selects active
  packages only and returns the empty list, not the sentinel, and
  \<open>resource_five_stars\<close> returns the scores of the deleted resource.
\<close>

theorem C7_counterexample:
  "five_stars scenario (Some []) \<noteq> Sentinel ''Not found'' \<and>
   resource_five_stars scenario (Some []) = Inl UnboundLocalError \<and>
   map pkg_state
     (filter (\<lambda>p. pkg_id p = ''p1'' \<or> pkg_name p = ''p1'') (db_package scenario_deleted)) =
     [''deleted''] \<and>
   five_stars scenario_deleted (Some ''p1'') = Listing [] \<and>
   map res_state (filter (\<lambda>r. res_id r = ''r1'') (db_resource scenario_deleted)) =
     [''deleted''] \<and>
   resource_five_stars scenario_deleted (Some ''r1'') =
     Inr [(''openness_score'', VInt 0), (''openness_score_reason'', VStr ''Not found''),
          (''openness_updated'', VTime 11)]"
  by code_simp

text \<open>
  C7 as amended: for every id that is not empty, \<open>five_stars\<close> returns
  \<open>"Not found"\<close> when no dataset of the store, whatever its state, has it as id or
  name, and the empty list when the dataset it finds is not active;
  \<open>resource_five_stars\<close> returns the empty dictionary when no resource of the store,
  whatever its state, has it as id; and for a resource that is found,
  \<open>resource_five_stars\<close> returns the empty dictionary when the resource has no
  \<open>openness_score\<close> row, or when its score is an integer literal and it has no
  \<open>openness_score_reason\<close> row.
\<close>

theorem C7_not_found:
  "(i \<noteq> [] \<and> (\<forall>p \<in> set (db_package d). pkg_id p \<noteq> i \<and> pkg_name p \<noteq> i) \<longrightarrow>
      five_stars d (Some i) = Sentinel ''Not found'') \<and>
   (i \<noteq> [] \<and> Package_get d i = Some pkg \<and>
      (\<forall>p \<in> set (db_package d). pkg_id p = pkg_id pkg \<longrightarrow> pkg_state p \<noteq> ''active'') \<longrightarrow>
      five_stars d (Some i) = Listing []) \<and>
   (i \<noteq> [] \<and> (\<forall>r \<in> set (db_resource d). res_id r \<noteq> i) \<longrightarrow>
      resource_five_stars d (Some i) = Inr []) \<and>
   (i \<noteq> [] \<and> Resource_get d i = Some r \<and>
      (task_status_show d (res_id r) ''qa'' ''openness_score'' = None \<or>
       (\<exists>s n. task_status_show d (res_id r) ''qa'' ''openness_score'' = Some s \<and>
              py_int (ts_value s) = Inr n \<and>
              task_status_show d (res_id r) ''qa'' ''openness_score_reason'' = None)) \<longrightarrow>
      resource_five_stars d (Some i) = Inr [])"
proof (intro conjI impI)
  assume a: "i \<noteq> [] \<and> (\<forall>p \<in> set (db_package d). pkg_id p \<noteq> i \<and> pkg_name p \<noteq> i)"
  then have "Package_get d i = None"
    by (auto simp: Package_get_def find_None_iff split: option.splits)
  with a show "five_stars d (Some i) = Sentinel ''Not found''"
    by (simp add: five_stars_def truthy_id_def)
next
  assume a: "i \<noteq> [] \<and> Package_get d i = Some pkg \<and>
      (\<forall>p \<in> set (db_package d). pkg_id p = pkg_id pkg \<longrightarrow> pkg_state p \<noteq> ''active'')"
  have "\<not> (case x of (p, s) \<Rightarrow> pkg_id p = pkg_id pkg)" if "x \<in> set (five_stars_join d)" for x
  proof -
    obtain p s where x: "x = (p, s)" by (cases x)
    from that x have "p \<in> set (db_package d) \<and> pkg_state p = ''active''"
      by (simp add: five_stars_join_active)
    with a x show ?thesis by auto
  qed
  then have "filter (\<lambda>(p, s). pkg_id p = pkg_id pkg) (five_stars_join d) = []"
    by (simp add: filter_empty_conv)
  with a show "five_stars d (Some i) = Listing []"
    by (simp add: five_stars_def truthy_id_def five_stars_query_Nil)
next
  assume a: "i \<noteq> [] \<and> (\<forall>r \<in> set (db_resource d). res_id r \<noteq> i)"
  then have "Resource_get d i = None"
    by (auto simp: Resource_get_def find_None_iff)
  with a show "resource_five_stars d (Some i) = Inr []"
    by (simp add: resource_five_stars_def truthy_id_def)
next
  assume "i \<noteq> [] \<and> Resource_get d i = Some r \<and>
      (task_status_show d (res_id r) ''qa'' ''openness_score'' = None \<or>
       (\<exists>s n. task_status_show d (res_id r) ''qa'' ''openness_score'' = Some s \<and>
              py_int (ts_value s) = Inr n \<and>
              task_status_show d (res_id r) ''qa'' ''openness_score_reason'' = None))"
  then show "resource_five_stars d (Some i) = Inr []"
    by (auto simp: resource_five_stars_def truthy_id_def resource_scores_def)
qed

theorem C7_not_found_witness:
  "five_stars scenario (Some ''d9'') = Sentinel ''Not found'' \<and>
   five_stars scenario_deleted (Some ''d1'') = Listing [] \<and>
   resource_five_stars scenario (Some ''r9'') = Inr [] \<and>
   resource_five_stars scenario (Some ''r5'') = Inr []"
proof -
  have h1: "''d9'' \<noteq> [] \<and> (\<forall>p \<in> set (db_package scenario). pkg_id p \<noteq> ''d9'' \<and> pkg_name p \<noteq> ''d9'')"
    by (simp add: scenario_def)
  have h2: "''r9'' \<noteq> [] \<and> (\<forall>r \<in> set (db_resource scenario). res_id r \<noteq> ''r9'')"
    by (simp add: scenario_def)
  have h3: "''r5'' \<noteq> [] \<and>
      Resource_get scenario ''r5'' =
        Some \<lparr>res_id = ''r5'', res_resource_group_id = ''rg2'', res_url = ''http://a/5'',
              res_position = 2, res_state = ''active''\<rparr> \<and>
      task_status_show scenario ''r5'' ''qa'' ''openness_score'' = None"
    by code_simp
  have h4: "''d1'' \<noteq> [] \<and>
      Package_get scenario_deleted ''d1'' =
        Some \<lparr>pkg_id = ''p1'', pkg_name = ''d1'', pkg_title = ''D1'', pkg_state = ''deleted''\<rparr> \<and>
      (\<forall>p \<in> set (db_package scenario_deleted).
         pkg_id p =
           pkg_id \<lparr>pkg_id = ''p1'', pkg_name = ''d1'', pkg_title = ''D1'',
                   pkg_state = ''deleted''\<rparr> \<longrightarrow>
         pkg_state p \<noteq> ''active'')"
    by code_simp
  from C7_not_found [where i = "''d9''" and d = scenario] h1
  have c1: "five_stars scenario (Some ''d9'') = Sentinel ''Not found''"
    by blast
  from C7_not_found [where i = "''r9''" and d = scenario] h2
  have c2: "resource_five_stars scenario (Some ''r9'') = Inr []"
    by blast
  from C7_not_found [where i = "''r5''" and d = scenario and r =
      "\<lparr>res_id = ''r5'', res_resource_group_id = ''rg2'', res_url = ''http://a/5'',
        res_position = 2, res_state = ''active''\<rparr>"] h3
  have c3: "resource_five_stars scenario (Some ''r5'') = Inr []"
    by simp
  from C7_not_found [where i = "''d1''" and d = scenario_deleted and pkg =
      "\<lparr>pkg_id = ''p1'', pkg_name = ''d1'', pkg_title = ''D1'', pkg_state = ''deleted''\<rparr>"] h4
  have c4: "five_stars scenario_deleted (Some ''d1'') = Listing []"
    by blast
  from c1 c4 c2 c3 show ?thesis by simp
qed

section \<open>C10: the name organisations_with_broken_resource_links\<close>

text \<open>
  C10: the module defines \<open>organisations_with_broken_resource_links\<close> twice, and the
  second definition, with the parameter \<open>include_sub_organisations\<close> (line 266),
  replaces the first, with \<open>include_resources\<close> (line 178). So the name is bound to the
  variant that aggregates counts: a call with the keyword \<open>include_resources\<close> fails,
  and every row the function returns has the four keys of a count row, none of a
  resource.
\<close>

theorem C10_rebinding:
  "module_namespace ''organisations_with_broken_resource_links'' =
     Some \<lparr>def_name = ''organisations_with_broken_resource_links'',
           def_params = [''include_sub_organisations''], def_line = 266\<rparr> \<and>
   call_with_keywords ''organisations_with_broken_resource_links'' [''include_resources''] =
     Inl TypeError \<and>
   (organisations_with_broken_resource_links d go_up_tree flag = Inr rows \<and> r \<in> set rows \<longrightarrow>
      od_keys r = [''publisher_title'', ''publisher_name'', ''broken_package_count'',
                   ''broken_resource_count''])"
proof -
  have ns: "module_namespace ''organisations_with_broken_resource_links'' =
     Some \<lparr>def_name = ''organisations_with_broken_resource_links'',
           def_params = [''include_sub_organisations''], def_line = 266\<rparr>"
    by (simp add: module_namespace_def module_defs_def bind_def_def)
  have call: "call_with_keywords ''organisations_with_broken_resource_links''
      [''include_resources''] = Inl TypeError"
    by (simp add: call_with_keywords_def ns)
  have keys: "od_keys r = [''publisher_title'', ''publisher_name'', ''broken_package_count'',
                   ''broken_resource_count'']"
    if "organisations_with_broken_resource_links d go_up_tree flag = Inr rows" "r \<in> set rows"
    using that
    by (auto simp: organisations_with_broken_resource_links_def od_keys_def count_row_data_def
        split: if_splits sum.splits)
  from ns call keys show ?thesis by blast
qed

theorem C10_rebinding_witness:
  "module_namespace ''organisations_with_broken_resource_links'' =
     Some \<lparr>def_name = ''organisations_with_broken_resource_links'',
           def_params = [''include_sub_organisations''], def_line = 266\<rparr> \<and>
   call_with_keywords ''organisations_with_broken_resource_links'' [''include_resources''] =
     Inl TypeError \<and>
   od_keys (count_row_data ''Alpha'' ''alpha'' 2 2) =
     [''publisher_title'', ''publisher_name'', ''broken_package_count'',
      ''broken_resource_count'']"
proof -
  have h: "organisations_with_broken_resource_links scenario scenario_up True =
             Inr [count_row_data ''Alpha'' ''alpha'' 2 2,
                  count_row_data ''Alpha Sub'' ''alpha-sub'' 1 1] \<and>
           count_row_data ''Alpha'' ''alpha'' 2 2 \<in>
             set [count_row_data ''Alpha'' ''alpha'' 2 2,
                  count_row_data ''Alpha Sub'' ''alpha-sub'' 1 1]"
    by code_simp
  from C10_rebinding [of scenario scenario_up True
      "[count_row_data ''Alpha'' ''alpha'' 2 2, count_row_data ''Alpha Sub'' ''alpha-sub'' 1 1]"
      "count_row_data ''Alpha'' ''alpha'' 2 2"] h
  show ?thesis by blast
qed

section \<open>The loop of the collator and the runs of the stream\<close>

lemma save_res_data_row: "save_res_data r rd dat = save_res_data r' rd dat"
  by (simp add: save_res_data_def)

lemma merge_row_not_Nil: "merge_row r rd = Inr rd' \<Longrightarrow> rd' \<noteq> []"
  by (auto simp: merge_row_def Let_def max_updated_def split: option.splits sum.splits val.splits)

lemma merge_rows_snoc:
  "merge_rows (g @ [r]) rd =
     (case merge_rows g rd of Inl e \<Rightarrow> Inl e | Inr rd' \<Rightarrow> merge_row r rd')"
  by (induction g arbitrary: rd) (auto split: sum.splits)

lemma merge_rows_not_Nil: "merge_rows g rd = Inr rd' \<Longrightarrow> g \<noteq> [] \<Longrightarrow> rd' \<noteq> []"
proof (induction g arbitrary: rd' rule: rev_induct)
  case Nil
  then show ?case by simp
next
  case (snoc r g)
  then show ?case
    by (auto simp: merge_rows_snoc split: sum.splits dest: merge_row_not_Nil)
qed

lemma loop_runs:
  assumes "cur \<noteq> []"
  shows "finish r0 (case merge_rows cur (init_res_data (hd cur)) of
            Inl e \<Rightarrow> Inl e
          | Inr rd \<Rightarrow> collate_loop \<lparr>last_row = Some (last cur), res_data = Some rd, data = dat\<rparr> rows)
         = deliver ((cur @ takeWhile (\<lambda>x. resource_id x = resource_id (last cur)) rows) #
                    runs (dropWhile (\<lambda>x. resource_id x = resource_id (last cur)) rows)) dat"
  using assms
proof (induction rows arbitrary: cur dat)
  case Nil
  then show ?case
    by (auto simp: finish_def consolidate_def truthy_dict_def save_res_data_row [of r0 _ _ "last cur"]
        split: sum.splits dest: merge_rows_not_Nil)
next
  case (Cons r rows)
  show ?case
  proof (cases "resource_id r = resource_id (last cur)")
    case True
    have "finish r0 (case merge_rows cur (init_res_data (hd cur)) of
            Inl e \<Rightarrow> Inl e
          | Inr rd \<Rightarrow> collate_loop \<lparr>last_row = Some (last cur), res_data = Some rd, data = dat\<rparr> (r # rows))
        = finish r0 (case merge_rows (cur @ [r]) (init_res_data (hd (cur @ [r]))) of
            Inl e \<Rightarrow> Inl e
          | Inr rd \<Rightarrow> collate_loop \<lparr>last_row = Some (last (cur @ [r])), res_data = Some rd, data = dat\<rparr> rows)"
      using True Cons.prems
      by (auto simp: merge_rows_snoc collate_step_def store_row_def finish_def split: sum.splits)
    also have "\<dots> = deliver (((cur @ [r]) @ takeWhile (\<lambda>x. resource_id x = resource_id (last (cur @ [r]))) rows) #
                    runs (dropWhile (\<lambda>x. resource_id x = resource_id (last (cur @ [r]))) rows)) dat"
      by (rule Cons.IH) simp
    finally show ?thesis using True by simp
  next
    case False
    show ?thesis
    proof (cases "merge_rows cur (init_res_data (hd cur))")
      case (Inl e)
      then show ?thesis using False by (simp add: finish_def consolidate_def)
    next
      case (Inr rd)
      then have rd: "rd \<noteq> []" using Cons.prems by (rule merge_rows_not_Nil)
      show ?thesis
      proof (cases "save_res_data (last cur) rd dat")
        case (Inl e)
        then show ?thesis using False Inr rd
          by (simp add: finish_def consolidate_def collate_step_def truthy_dict_def)
      next
        case (Inr dat')
        have lhs: "finish r0 (case merge_rows cur (init_res_data (hd cur)) of
            Inl e \<Rightarrow> Inl e
          | Inr rd \<Rightarrow> collate_loop \<lparr>last_row = Some (last cur), res_data = Some rd, data = dat\<rparr> (r # rows))
          = finish r0 (case merge_rows [r] (init_res_data (hd [r])) of
            Inl e \<Rightarrow> Inl e
          | Inr rd \<Rightarrow> collate_loop \<lparr>last_row = Some (last [r]), res_data = Some rd, data = dat'\<rparr> rows)"
          using False \<open>merge_rows cur (init_res_data (hd cur)) = Inr rd\<close> rd Inr
          by (simp add: collate_step_def truthy_dict_def store_row_def split: sum.splits)
        have rhs: "deliver ((cur @ takeWhile (\<lambda>x. resource_id x = resource_id (last cur)) (r # rows)) #
                    runs (dropWhile (\<lambda>x. resource_id x = resource_id (last cur)) (r # rows))) dat
          = deliver (([r] @ takeWhile (\<lambda>x. resource_id x = resource_id (last [r])) rows) #
                    runs (dropWhile (\<lambda>x. resource_id x = resource_id (last [r])) rows)) dat'"
          using False \<open>merge_rows cur (init_res_data (hd cur)) = Inr rd\<close> Inr
          by (simp add: consolidate_def)
        have "finish r0 (case merge_rows [r] (init_res_data (hd [r])) of
            Inl e \<Rightarrow> Inl e
          | Inr rd \<Rightarrow> collate_loop \<lparr>last_row = Some (last [r]), res_data = Some rd, data = dat'\<rparr> rows)
         = deliver (([r] @ takeWhile (\<lambda>x. resource_id x = resource_id (last [r])) rows) #
                    runs (dropWhile (\<lambda>x. resource_id x = resource_id (last [r])) rows)) dat'"
          by (rule Cons.IH) simp
        with lhs rhs show ?thesis by (simp only:)
      qed
    qed
  qed
qed

lemma collate_runs: "collate rows = deliver (runs rows) []"
proof (cases rows)
  case Nil
  then show ?thesis by (simp add: collate_def truthy_dict_def)
next
  case (Cons r rs)
  have lhs: "collate rows = finish (last rows) (case merge_rows [r] (init_res_data (hd [r])) of
            Inl e \<Rightarrow> Inl e
          | Inr rd \<Rightarrow> collate_loop \<lparr>last_row = Some (last [r]), res_data = Some rd, data = []\<rparr> rs)"
    using Cons
    by (simp add: collate_def finish_def collate_step_def store_row_def split: sum.splits)
  have rhs: "deliver (runs rows) [] =
       deliver (([r] @ takeWhile (\<lambda>x. resource_id x = resource_id (last [r])) rs) #
                    runs (dropWhile (\<lambda>x. resource_id x = resource_id (last [r])) rs)) []"
    using Cons by simp
  have "finish (last rows) (case merge_rows [r] (init_res_data (hd [r])) of
            Inl e \<Rightarrow> Inl e
          | Inr rd \<Rightarrow> collate_loop \<lparr>last_row = Some (last [r]), res_data = Some rd, data = []\<rparr> rs)
         = deliver (([r] @ takeWhile (\<lambda>x. resource_id x = resource_id (last [r])) rs) #
                    runs (dropWhile (\<lambda>x. resource_id x = resource_id (last [r])) rs)) []"
    by (rule loop_runs) simp
  with lhs rhs show ?thesis by (simp only:)
qed

lemma concat_runs: "concat (runs rows) = rows"
  by (induction rows rule: runs.induct) simp_all

lemma runs_nonempty: "g \<in> set (runs rows) \<Longrightarrow> g \<noteq> []"
  by (induction rows rule: runs.induct) auto

lemma runs_same_resource:
  "g \<in> set (runs rows) \<Longrightarrow> x \<in> set g \<Longrightarrow> resource_id x = resource_id (hd g)"
  by (induction rows rule: runs.induct) (auto dest: set_takeWhileD)

lemma remdups_adj_run:
  "\<forall>x \<in> set xs. x = a \<Longrightarrow> ys = [] \<or> hd ys \<noteq> a \<Longrightarrow> remdups_adj (a # xs @ ys) = a # remdups_adj ys"
proof (induction xs)
  case Nil
  then show ?case by (cases ys) auto
next
  case (Cons x xs)
  then show ?case by simp
qed

lemma runs_heads: "map (\<lambda>g. resource_id (hd g)) (runs rows) = remdups_adj (map resource_id rows)"
proof (induction rows rule: runs.induct)
  case 1
  then show ?case by simp
next
  case (2 r rs)
  let ?P = "\<lambda>x. resource_id x = resource_id r"
  have "map resource_id rs = map resource_id (takeWhile ?P rs) @ map resource_id (dropWhile ?P rs)"
    by (metis map_append takeWhile_dropWhile_id)
  moreover have "\<forall>x \<in> set (map resource_id (takeWhile ?P rs)). x = resource_id r"
    by (auto dest: set_takeWhileD)
  moreover have "map resource_id (dropWhile ?P rs) = [] \<or> hd (map resource_id (dropWhile ?P rs)) \<noteq> resource_id r"
    by (metis (mono_tags, lifting) hd_dropWhile hd_map map_is_Nil_conv)
  ultimately have "remdups_adj (resource_id r # map resource_id rs) =
      resource_id r # remdups_adj (map resource_id (dropWhile ?P rs))"
    using remdups_adj_run by metis
  with 2 show ?case by simp
qed

lemma status_pairs_Cons:
  "status_pairs (r # g) = [task_status_key r \<mapsto> VStr (task_status_value r)] ++ status_pairs g"
  by (simp add: status_pairs_def)

lemma dom_status_pairs: "dom (status_pairs g) = task_status_key ` set g"
  by (simp add: status_pairs_def dom_map_of_conv_image_fst image_image)

lemma merge_row_time:
  assumes "task_status_key r \<noteq> ''openness_score_updated''"
    and "map_of rd ''openness_score_updated'' = Some (VTime t0)"
  shows "\<exists>rd'. merge_row r rd = Inr rd' \<and>
     map_of rd' = (map_of rd)(task_status_key r \<mapsto> VStr (task_status_value r),
        ''openness_score_updated'' \<mapsto> VTime (max (task_status_last_updated r) t0))"
  using assms
  by (simp add: merge_row_def Let_def update_conv' max_updated_def)

lemma merge_row_first:
  assumes "task_status_key r \<noteq> ''openness_score_updated''"
    and "map_of rd ''openness_score_updated'' = None"
  shows "\<exists>rd'. merge_row r rd = Inr rd' \<and>
     map_of rd' = (map_of rd)(task_status_key r \<mapsto> VStr (task_status_value r),
        ''openness_score_updated'' \<mapsto> VTime (task_status_last_updated r))"
  using assms
  by (simp add: merge_row_def Let_def update_conv')

lemma Max_insert_max:
  "finite S \<Longrightarrow> Max (insert (max (a::nat) t0) S) = Max (insert t0 (insert a S))"
  by (cases "S = {}") (auto simp: max_def)

lemma merge_step_map:
  assumes "m1 = m(k \<mapsto> v, u \<mapsto> t)"
  shows "(m1 ++ s)(u \<mapsto> x) = (m ++ ([k \<mapsto> v] ++ s))(u \<mapsto> x)"
proof
  fix a
  show "((m1 ++ s)(u \<mapsto> x)) a = ((m ++ ([k \<mapsto> v] ++ s))(u \<mapsto> x)) a"
    unfolding assms by (cases "s a") (simp_all add: map_add_def)
qed

lemma merge_rows_time:
  assumes "\<forall>r \<in> set g. task_status_key r \<noteq> ''openness_score_updated''"
    and "map_of rd ''openness_score_updated'' = Some (VTime t0)"
  shows "\<exists>rd'. merge_rows g rd = Inr rd' \<and>
     map_of rd' = (map_of rd ++ status_pairs g)(''openness_score_updated'' \<mapsto>
        VTime (Max (insert t0 (task_status_last_updated ` set g))))"
  using assms
proof (induction g arbitrary: rd t0)
  case Nil
  have "map_of rd = (map_of rd)(''openness_score_updated'' \<mapsto> VTime t0)"
    using Nil.prems(2) by (simp add: fun_upd_idem)
  then show ?case by (simp add: status_pairs_def)
next
  case (Cons r g)
  let ?t = "max (task_status_last_updated r) t0"
  from Cons.prems obtain rd1 where rd1: "merge_row r rd = Inr rd1"
    "map_of rd1 = (map_of rd)(task_status_key r \<mapsto> VStr (task_status_value r),
        ''openness_score_updated'' \<mapsto> VTime ?t)"
    using merge_row_time [of r rd t0] by auto
  from Cons.prems have g: "\<forall>r \<in> set g. task_status_key r \<noteq> ''openness_score_updated''"
    by simp
  from rd1(2) have u: "map_of rd1 ''openness_score_updated'' = Some (VTime ?t)"
    by simp
  from Cons.IH [OF g u] obtain rd' where rd': "merge_rows g rd1 = Inr rd'"
    "map_of rd' = (map_of rd1 ++ status_pairs g)(''openness_score_updated'' \<mapsto>
        VTime (Max (insert ?t (task_status_last_updated ` set g))))"
    by blast
  have m: "Max (insert ?t (task_status_last_updated ` set g)) =
      Max (insert t0 (task_status_last_updated ` set (r # g)))"
    using Max_insert_max [of "task_status_last_updated ` set g" "task_status_last_updated r" t0]
    by simp
  have "map_of rd' = (map_of rd ++ status_pairs (r # g))(''openness_score_updated'' \<mapsto>
        VTime (Max (insert t0 (task_status_last_updated ` set (r # g)))))"
    unfolding rd'(2) m status_pairs_Cons by (rule merge_step_map) (rule rd1(2))
  moreover have "merge_rows (r # g) rd = Inr rd'"
    using rd1(1) rd'(1) by simp
  ultimately show ?case by blast
qed

lemma consolidate_map:
  assumes "g \<noteq> []" and "\<forall>r \<in> set g. task_status_key r \<noteq> ''openness_score_updated''"
  shows "\<exists>rd. consolidate g = Inr rd \<and>
     map_of rd = (map_of (init_res_data (hd g)) ++ status_pairs g)(''openness_score_updated'' \<mapsto>
        VTime (Max (task_status_last_updated ` set g)))"
proof -
  from assms(1) obtain r g' where g: "g = r # g'" by (cases g) auto
  have "map_of (init_res_data r) ''openness_score_updated'' = None"
    by (simp add: init_res_data_def)
  with assms(2) g obtain rd1 where rd1: "merge_row r (init_res_data r) = Inr rd1"
    "map_of rd1 = (map_of (init_res_data r))(task_status_key r \<mapsto> VStr (task_status_value r),
        ''openness_score_updated'' \<mapsto> VTime (task_status_last_updated r))"
    using merge_row_first [of r "init_res_data r"] by auto
  from assms(2) g have g': "\<forall>r \<in> set g'. task_status_key r \<noteq> ''openness_score_updated''"
    by simp
  from rd1(2) have u: "map_of rd1 ''openness_score_updated'' = Some (VTime (task_status_last_updated r))"
    by simp
  from merge_rows_time [OF g' u] obtain rd where rd: "merge_rows g' rd1 = Inr rd"
    "map_of rd = (map_of rd1 ++ status_pairs g')(''openness_score_updated'' \<mapsto>
        VTime (Max (insert (task_status_last_updated r) (task_status_last_updated ` set g'))))"
    by blast
  have "map_of rd = (map_of (init_res_data (hd g)) ++ status_pairs g)(''openness_score_updated'' \<mapsto>
        VTime (Max (task_status_last_updated ` set g)))"
    unfolding rd(2) g status_pairs_Cons list.sel set_simps image_insert
    by (rule merge_step_map) (rule rd1(2))
  moreover have "consolidate g = Inr rd"
    using rd1(1) rd(1) g by (simp add: consolidate_def)
  ultimately show ?thesis by blast
qed

lemma consolidate_keys:
  assumes "g \<noteq> []" and "\<forall>r \<in> set g. task_status_key r \<noteq> ''openness_score_updated''"
    and "consolidate g = Inr rd"
  shows "set (od_keys rd) =
     set (od_keys (init_res_data (hd g))) \<union> task_status_key ` set g \<union> {''openness_score_updated''}"
proof -
  from consolidate_map [OF assms(1,2)] assms(3)
  have "map_of rd = (map_of (init_res_data (hd g)) ++ status_pairs g)(''openness_score_updated'' \<mapsto>
        VTime (Max (task_status_last_updated ` set g)))"
    by auto
  then have "dom (map_of rd) = dom ((map_of (init_res_data (hd g)) ++ status_pairs g)(''openness_score_updated'' \<mapsto>
        VTime (Max (task_status_last_updated ` set g))))"
    by simp
  then show ?thesis
    by (auto simp: od_keys_def dom_map_of_conv_image_fst dom_status_pairs)
qed

lemma remdups_adj_ids_Cons:
  "remdups_adj (map resource_id (r # rs)) =
     resource_id r # remdups_adj (map resource_id (dropWhile (\<lambda>x. resource_id x = resource_id r) rs))"
  using runs_heads [of "r # rs"] runs_heads [of "dropWhile (\<lambda>x. resource_id x = resource_id r) rs"]
  by simp

lemma filter_take_drop:
  "filter Q rs = filter Q (takeWhile P rs) @ filter Q (dropWhile P rs)"
proof -
  have "filter Q (takeWhile P rs @ dropWhile P rs) =
      filter Q (takeWhile P rs) @ filter Q (dropWhile P rs)"
    by (rule filter_append)
  then show ?thesis by (simp only: takeWhile_dropWhile_id)
qed

lemma filter_none: "\<forall>x \<in> set xs. \<not> Q x \<Longrightarrow> filter Q xs = []"
  by (simp add: filter_empty_conv)

lemma filter_all: "\<forall>x \<in> set xs. Q x \<Longrightarrow> filter Q xs = xs"
  by (simp add: filter_id_conv)

lemma filter_first_run:
  assumes "a \<notin> f ` set (dropWhile (\<lambda>x. f x = a) rs)"
  shows "filter (\<lambda>x. f x = a) rs = takeWhile (\<lambda>x. f x = a) rs"
proof -
  have "\<forall>x \<in> set (takeWhile (\<lambda>x. f x = a) rs). f x = a"
    by (auto dest: set_takeWhileD)
  then have T: "filter (\<lambda>x. f x = a) (takeWhile (\<lambda>x. f x = a) rs) = takeWhile (\<lambda>x. f x = a) rs"
    by (rule filter_all)
  have "\<forall>x \<in> set (dropWhile (\<lambda>x. f x = a) rs). \<not> f x = a"
    using assms by (metis imageI)
  then have D: "filter (\<lambda>x. f x = a) (dropWhile (\<lambda>x. f x = a) rs) = []"
    by (rule filter_none)
  show ?thesis
    using filter_take_drop [of "\<lambda>x. f x = a" rs "\<lambda>x. f x = a"]
    by (simp only: T D append_Nil2)
qed

lemma filter_other_run:
  assumes "i \<noteq> a"
  shows "filter (\<lambda>x. f x = i) rs = filter (\<lambda>x. f x = i) (dropWhile (\<lambda>x. f x = a) rs)"
proof -
  have "\<forall>x \<in> set (takeWhile (\<lambda>x. f x = a) rs). \<not> f x = i"
    using assms by (auto dest: set_takeWhileD)
  then have T: "filter (\<lambda>x. f x = i) (takeWhile (\<lambda>x. f x = a) rs) = []"
    by (rule filter_none)
  show ?thesis
    using filter_take_drop [of "\<lambda>x. f x = i" rs "\<lambda>x. f x = a"]
    by (simp only: T append_Nil)
qed

lemma runs_ordered:
  "distinct (remdups_adj (map resource_id rows)) \<Longrightarrow>
   runs rows = map (\<lambda>i. filter (\<lambda>x. resource_id x = i) rows) (remdups_adj (map resource_id rows))"
proof (induction rows rule: runs.induct)
  case 1
  then show ?case by simp
next
  case (2 r rs)
  let ?P = "\<lambda>x. resource_id x = resource_id r"
  let ?D = "dropWhile ?P rs"
  let ?ids = "remdups_adj (map resource_id ?D)"
  from "2.prems" have "distinct (resource_id r # ?ids)"
    by (simp only: remdups_adj_ids_Cons)
  then have d: "resource_id r \<notin> set ?ids" "distinct ?ids"
    by simp_all
  from d(1) have d': "resource_id r \<notin> resource_id ` set ?D"
    unfolding remdups_adj_set set_map .
  have first: "filter ?P (r # rs) = r # takeWhile ?P rs"
    using filter_first_run [OF d'] by simp
  have other: "filter (\<lambda>x. resource_id x = i) (r # rs) = filter (\<lambda>x. resource_id x = i) ?D"
    if "i \<in> set ?ids" for i
  proof -
    from that d(1) have i: "i \<noteq> resource_id r" by blast
    from filter_other_run [OF i] i show ?thesis by simp
  qed
  have "runs ?D = map (\<lambda>i. filter (\<lambda>x. resource_id x = i) ?D) ?ids"
    using d(2) by (rule "2.IH")
  also have "\<dots> = map (\<lambda>i. filter (\<lambda>x. resource_id x = i) (r # rs)) ?ids"
  proof (rule map_cong)
    show "?ids = ?ids" by (rule refl)
  next
    fix i
    assume "i \<in> set ?ids"
    then show "filter (\<lambda>x. resource_id x = i) ?D = filter (\<lambda>x. resource_id x = i) (r # rs)"
      by (rule other [symmetric])
  qed
  finally have "runs ?D = map (\<lambda>i. filter (\<lambda>x. resource_id x = i) (r # rs)) ?ids" .
  then have "runs (r # rs) =
      map (\<lambda>i. filter (\<lambda>x. resource_id x = i) (r # rs)) (resource_id r # ?ids)"
    using first by simp
  then show ?case
    by (simp only: remdups_adj_ids_Cons)
qed

lemma save_res_data_error: "save_res_data r rd dat = Inl e \<Longrightarrow> e = KeyError \<and> map_of rd ''openness_score_reason'' = None"
  by (auto simp: save_res_data_def od_get_def split: option.splits if_splits)

lemma save_res_data_ok:
  "save_res_data r rd dat = Inr dat' \<Longrightarrow>
     map_of rd ''openness_score_reason'' \<noteq> None \<and> dat' = dat @ filter (\<lambda>x. \<not> excluded x) [rd]"
  by (auto simp: save_res_data_def od_get_def excluded_def split: option.splits if_splits)

lemma deliver_filter:
  "deliver gs dat = Inr dat' \<Longrightarrow>
   \<exists>recs. map consolidate gs = map Inr recs \<and> dat' = dat @ filter (\<lambda>x. \<not> excluded x) recs \<and>
      (\<forall>x \<in> set recs. map_of x ''openness_score_reason'' \<noteq> None)"
proof (induction gs arbitrary: dat)
  case Nil
  then show ?case by simp
next
  case (Cons g gs)
  from Cons.prems obtain rd dat1 where rd: "consolidate g = Inr rd"
    "save_res_data (last g) rd dat = Inr dat1" "deliver gs dat1 = Inr dat'"
    by (auto split: sum.splits)
  from Cons.IH [OF rd(3)] obtain recs where recs: "map consolidate gs = map Inr recs"
    "dat' = dat1 @ filter (\<lambda>x. \<not> excluded x) recs"
    "\<forall>x \<in> set recs. map_of x ''openness_score_reason'' \<noteq> None"
    by auto
  from save_res_data_ok [OF rd(2)] rd(1) recs
  have "map consolidate (g # gs) = map Inr (rd # recs) \<and>
      dat' = dat @ filter (\<lambda>x. \<not> excluded x) (rd # recs) \<and>
      (\<forall>x \<in> set (rd # recs). map_of x ''openness_score_reason'' \<noteq> None)"
    by auto
  then show ?case by blast
qed

lemma deliver_missing:
  assumes "g \<in> set gs" and "\<forall>h \<in> set gs. \<exists>rd. consolidate h = Inr rd"
    and "consolidate g = Inr rd" and "map_of rd ''openness_score_reason'' = None"
  shows "deliver gs dat = Inl KeyError"
  using assms(1,2)
proof (induction gs arbitrary: dat)
  case Nil
  then show ?case by simp
next
  case (Cons h gs)
  from Cons.prems(2) obtain rh where rh: "consolidate h = Inr rh" by auto
  show ?case
  proof (cases "save_res_data (last h) rh dat")
    case (Inl e)
    with rh show ?thesis by (auto dest: save_res_data_error)
  next
    case (Inr dat1)
    then have "map_of rh ''openness_score_reason'' \<noteq> None"
      by (auto dest: save_res_data_ok)
    with rh assms(3,4) have "h \<noteq> g" by auto
    with Cons.prems have "g \<in> set gs" "\<forall>h \<in> set gs. \<exists>rd. consolidate h = Inr rd" by auto
    then have "deliver gs dat1 = Inl KeyError" by (rule Cons.IH)
    with rh Inr show ?thesis by simp
  qed
qed

lemma merge_row_Inr_key: "merge_row r rd = Inr rd' \<Longrightarrow> task_status_key r \<noteq> ''openness_score_updated''"
  by (auto simp: merge_row_def Let_def update_conv' max_updated_def split: option.splits sum.splits)

lemma merge_rows_Inr_keys:
  "merge_rows g rd = Inr rd' \<Longrightarrow> \<forall>r \<in> set g. task_status_key r \<noteq> ''openness_score_updated''"
  by (induction g arbitrary: rd) (auto split: sum.splits dest: merge_row_Inr_key)

lemma consolidate_Inr_keys:
  "consolidate g = Inr rd \<Longrightarrow> \<forall>r \<in> set g. task_status_key r \<noteq> ''openness_score_updated''"
  unfolding consolidate_def by (rule merge_rows_Inr_keys)

lemma consolidate_reason:
  assumes "g \<noteq> []" and "consolidate g = Inr rd"
    and "\<forall>r \<in> set g. task_status_key r \<noteq> ''openness_score_reason''"
  shows "map_of rd ''openness_score_reason'' = None"
proof -
  from consolidate_map [OF assms(1) consolidate_Inr_keys [OF assms(2)]] assms(2)
  have "map_of rd = (map_of (init_res_data (hd g)) ++ status_pairs g)(''openness_score_updated'' \<mapsto>
        VTime (Max (task_status_last_updated ` set g)))"
    by auto
  moreover have "status_pairs g ''openness_score_reason'' = None"
  proof -
    have "''openness_score_reason'' \<notin> task_status_key ` set g"
      using assms(3) by auto
    then have "''openness_score_reason'' \<notin> dom (status_pairs g)"
      unfolding dom_status_pairs .
    then show ?thesis by (simp add: domIff)
  qed
  moreover have "map_of (init_res_data (hd g)) ''openness_score_reason'' = None"
    by (simp add: init_res_data_def)
  ultimately show ?thesis by (simp add: map_add_def)
qed

lemma deliver_records:
  assumes "deliver gs dat = Inr dat'" and "rd \<in> set dat'" and "rd \<notin> set dat"
  shows "\<exists>g \<in> set gs. consolidate g = Inr rd"
proof -
  from deliver_filter [OF assms(1)] obtain recs where
    recs: "map consolidate gs = map Inr recs" "dat' = dat @ filter (\<lambda>x. \<not> excluded x) recs"
    by blast
  with assms(2,3) have "rd \<in> set recs" by auto
  then have "Inr rd \<in> set (map consolidate gs)" unfolding recs(1) by simp
  then show ?thesis by auto
qed

section \<open>C8: the collator of scores_by_dataset_for_organisation\<close>

lemma status_pairs_VStr: "status_pairs g k = Some v \<Longrightarrow> \<exists>s. v = VStr s"
  unfolding status_pairs_def by (auto dest!: map_of_SomeD)

lemma record_of_init:
  "(map_of (init_res_data (hd g)) ++ status_pairs g)(''openness_score_updated'' \<mapsto>
        VTime (Max (task_status_last_updated ` set g))) = record_of g"
  by (simp add: record_of_def init_res_data_def)

lemma save_res_data_present:
  "map_of rd ''openness_score_reason'' \<noteq> None \<Longrightarrow>
     save_res_data r rd dat = Inr (dat @ filter (\<lambda>x. \<not> excluded x) [rd])"
  by (auto simp: save_res_data_def od_get_def excluded_def split: option.splits)

lemma deliver_present:
  assumes "map consolidate gs = map Inr recs"
    and "\<forall>x \<in> set recs. map_of x ''openness_score_reason'' \<noteq> None"
  shows "deliver gs dat = Inr (dat @ filter (\<lambda>x. \<not> excluded x) recs)"
  using assms
proof (induction gs arbitrary: recs dat)
  case Nil
  then show ?case by simp
next
  case (Cons g gs)
  from Cons.prems(1) obtain rd recs' where r: "recs = rd # recs'" "consolidate g = Inr rd"
    "map consolidate gs = map Inr recs'"
    by (cases recs) auto
  from Cons.prems(2) r(1) have p: "map_of rd ''openness_score_reason'' \<noteq> None"
    "\<forall>x \<in> set recs'. map_of x ''openness_score_reason'' \<noteq> None"
    by simp_all
  have "deliver gs (dat @ filter (\<lambda>x. \<not> excluded x) [rd]) =
      Inr ((dat @ filter (\<lambda>x. \<not> excluded x) [rd]) @ filter (\<lambda>x. \<not> excluded x) recs')"
    using r(3) p(2) by (rule Cons.IH)
  then show ?case
    using r(1,2) save_res_data_present [OF p(1), of "last g" dat] by simp
qed

lemma consolidate_records:
  assumes "\<forall>g \<in> set gs. g \<noteq> [] \<and> (\<forall>r \<in> set g. task_status_key r \<noteq> ''openness_score_updated'')"
  shows "\<exists>recs. map consolidate gs = map Inr recs \<and> map map_of recs = map record_of gs"
  using assms
proof (induction gs)
  case Nil
  then show ?case by simp
next
  case (Cons g gs)
  then obtain recs where recs: "map consolidate gs = map Inr recs" "map map_of recs = map record_of gs"
    by auto
  from Cons.prems have "g \<noteq> []" "\<forall>r \<in> set g. task_status_key r \<noteq> ''openness_score_updated''"
    by simp_all
  from consolidate_map [OF this] obtain rd where rd: "consolidate g = Inr rd" "map_of rd = record_of g"
    unfolding record_of_init by blast
  from rd recs have "map consolidate (g # gs) = map Inr (rd # recs) \<and>
      map map_of (rd # recs) = map record_of (g # gs)"
    by simp
  then show ?case by blast
qed

lemma record_of_reason: "record_of g ''openness_score_reason'' = status_pairs g ''openness_score_reason''"
  by (simp add: record_of_def map_add_def split: option.splits)

lemma excluded_run: "map_of rd = record_of g \<Longrightarrow> excluded rd = run_excluded g"
  using status_pairs_VStr [of g "''openness_score_reason''"]
  by (auto simp: excluded_def run_excluded_def record_of_reason in_strings_def
      split: option.splits val.splits)

lemma filter_records:
  "map map_of recs = map record_of gs \<Longrightarrow>
     map map_of (filter (\<lambda>x. \<not> excluded x) recs) =
       map record_of (filter (\<lambda>g. \<not> run_excluded g) gs)"
proof (induction gs arbitrary: recs)
  case Nil
  then show ?case by simp
next
  case (Cons g gs)
  then obtain rd recs' where r: "recs = rd # recs'" "map_of rd = record_of g"
    "map map_of recs' = map record_of gs"
    by (cases recs) auto
  from Cons.IH [OF r(3)] excluded_run [OF r(2)] r(1,2) show ?case by simp
qed

lemma record_of_has_reason:
  "\<exists>r \<in> set g. task_status_key r = ''openness_score_reason'' \<Longrightarrow>
     record_of g ''openness_score_reason'' \<noteq> None"
proof -
  assume "\<exists>r \<in> set g. task_status_key r = ''openness_score_reason''"
  then have "''openness_score_reason'' \<in> dom (status_pairs g)"
    unfolding dom_status_pairs by (metis imageI)
  then show ?thesis by (simp add: record_of_reason domIff)
qed


lemma runs_subset: "g \<in> set (runs rows) \<Longrightarrow> set g \<subseteq> set rows"
proof -
  assume g: "g \<in> set (runs rows)"
  have "set (concat (runs rows)) = set rows" by (simp only: concat_runs)
  with g show ?thesis by auto
qed

lemma collate_stamp_error:
  assumes "\<exists>r \<in> set rows. task_status_key r = ''openness_score_updated''"
  shows "\<exists>e. collate rows = Inl e"
proof (cases "collate rows")
  case (Inl e)
  then show ?thesis by blast
next
  case (Inr dat)
  then have "deliver (runs rows) [] = Inr dat" by (simp add: collate_runs)
  from deliver_filter [OF this] obtain recs where recs:
    "map consolidate (runs rows) = map Inr recs"
    by blast
  from assms obtain r where r: "r \<in> set rows" "task_status_key r = ''openness_score_updated''"
    by blast
  have "set (concat (runs rows)) = set rows" by (simp only: concat_runs)
  with r(1) obtain g where g: "g \<in> set (runs rows)" "r \<in> set g" by auto
  from g(1) have "consolidate g \<in> set (map consolidate (runs rows))" by simp
  then obtain x where "consolidate g = Inr x" unfolding recs by auto
  from consolidate_Inr_keys [OF this] g(2) r(2) show ?thesis by blast
qed

lemma collate_records:
  assumes k: "\<forall>r \<in> set rows. task_status_key r \<noteq> ''openness_score_updated''"
    and rs: "\<forall>g \<in> set (runs rows). \<exists>r \<in> set g. task_status_key r = ''openness_score_reason''"
  shows "\<exists>dat. collate rows = Inr dat \<and>
     map map_of dat = map record_of (filter (\<lambda>g. \<not> run_excluded g) (runs rows))"
proof -
  have "\<forall>g \<in> set (runs rows). g \<noteq> [] \<and> (\<forall>r \<in> set g. task_status_key r \<noteq> ''openness_score_updated'')"
    using k runs_nonempty runs_subset by blast
  from consolidate_records [OF this] obtain recs where recs:
    "map consolidate (runs rows) = map Inr recs" "map map_of recs = map record_of (runs rows)"
    by blast
  have present: "\<forall>x \<in> set recs. map_of x ''openness_score_reason'' \<noteq> None"
  proof
    fix x
    assume "x \<in> set recs"
    then have "map_of x \<in> set (map map_of recs)" by simp
    then obtain g where g: "g \<in> set (runs rows)" "map_of x = record_of g"
      unfolding recs(2) by auto
    from rs g(1) have "record_of g ''openness_score_reason'' \<noteq> None"
      by (intro record_of_has_reason) blast
    with g(2) show "map_of x ''openness_score_reason'' \<noteq> None" by simp
  qed
  have "collate rows = Inr (filter (\<lambda>x. \<not> excluded x) recs)"
    using deliver_present [OF recs(1) present, of "[]"] by (simp add: collate_runs)
  moreover have "map map_of (filter (\<lambda>x. \<not> excluded x) recs) =
      map record_of (filter (\<lambda>g. \<not> run_excluded g) (runs rows))"
    using recs(2) by (rule filter_records)
  ultimately show ?thesis by blast
qed

lemma records_ordered:
  assumes "distinct (remdups_adj (map resource_id rows))"
  shows "map record_of (filter (\<lambda>g. \<not> run_excluded g) (runs rows)) =
     map (\<lambda>i. record_of (filter (\<lambda>x. resource_id x = i) rows))
       (filter (\<lambda>i. \<not> run_excluded (filter (\<lambda>x. resource_id x = i) rows))
          (remdups_adj (map resource_id rows)))"
  unfolding runs_ordered [OF assms] by (simp add: filter_map comp_def)

text \<open>
  C8 says that the collator flushes the accumulator exactly when the resource id of
  the incoming row differs from the one of the row before, and once more at the end
  of the stream, that it merges the pair of every row into the accumulator and takes
  the greatest of the time stamps, and that so every distinct resource of the ordered
  stream yields exactly one consolidated record. The flush hands the record to
  \<open>save_res_data\<close>, which drops it when its reason is in \<open>not_broken_but_0_stars\<close> and
  reads the reason of every record; and the accumulator keeps the time stamp under
  its own key \<open>openness_score_updated\<close>, where the pair of a row of that key
  overwrites it with a text. So the resource \<open>r4\<close> of \<open>alpha-sub\<close>, whose reason is
  in the set, yields no record; a stream whose resource has no reason row yields a
  \<open>KeyError\<close>; and a stream with a status row of the key \<open>openness_score_updated\<close>
  yields a \<open>TypeError\<close>, not a maximum.
\<close>

theorem C8_counterexample:
  "map resource_id (scores_rows scenario ''alpha-sub'') = [''r4'', ''r4'', ''r4''] \<and>
   collate (scores_rows scenario ''alpha-sub'') = Inr [] \<and>
   map resource_id (scores_rows scenario_partial ''alpha-sub'') = [''r4'', ''r4''] \<and>
   collate (scores_rows scenario_partial ''alpha-sub'') = Inl KeyError \<and>
   map task_status_key (scores_rows scenario_stamp ''alpha'') =
     [''status'', ''openness_score_reason'', ''openness_score_updated''] \<and>
   collate (scores_rows scenario_stamp ''alpha'') = Inl TypeError"
  by code_simp

text \<open>
  C8 as amended. The runs of a stream are the stream cut exactly where the resource
  id of a row differs from the one of the row before: their concatenation is the
  stream, each run is not empty and has one resource id, and the ids of the runs are
  the ids of the stream with adjacent repetitions removed. A stream with a status row
  of the key \<open>openness_score_updated\<close> makes the collator raise. For a stream with
  no such row, in which every run has an \<open>openness_score_reason\<close> row, the collator
  returns, in the order of the stream, one record for every run whose reason is
  outside \<open>not_broken_but_0_stars\<close> and none for the other runs; the record of a run
  holds the base fields of its first row, overlaid with the pairs of its rows (a
  later row wins), and the greatest time stamp of its rows. When moreover the rows of
  each resource are adjacent, as the query orders them, that is one record for each
  distinct resource id whose reason is outside the set, consolidated from all the
  rows of that resource.
\<close>

theorem C8_collation:
  "concat (runs rows) = rows \<and>
   map (\<lambda>g. resource_id (hd g)) (runs rows) = remdups_adj (map resource_id rows) \<and>
   (\<forall>g \<in> set (runs rows). g \<noteq> [] \<and> (\<forall>x \<in> set g. resource_id x = resource_id (hd g))) \<and>
   ((\<exists>r \<in> set rows. task_status_key r = ''openness_score_updated'') \<longrightarrow>
      (\<exists>e. collate rows = Inl e)) \<and>
   ((\<forall>r \<in> set rows. task_status_key r \<noteq> ''openness_score_updated'') \<and>
    (\<forall>g \<in> set (runs rows). \<exists>r \<in> set g. task_status_key r = ''openness_score_reason'') \<longrightarrow>
      (\<exists>dat. collate rows = Inr dat \<and>
         map map_of dat = map record_of (filter (\<lambda>g. \<not> run_excluded g) (runs rows)) \<and>
         (distinct (remdups_adj (map resource_id rows)) \<longrightarrow>
            map map_of dat =
              map (\<lambda>i. record_of (filter (\<lambda>x. resource_id x = i) rows))
                (filter (\<lambda>i. \<not> run_excluded (filter (\<lambda>x. resource_id x = i) rows))
                   (remdups_adj (map resource_id rows))))))"
proof (intro conjI)
  show "concat (runs rows) = rows" by (rule concat_runs)
  show "map (\<lambda>g. resource_id (hd g)) (runs rows) = remdups_adj (map resource_id rows)"
    by (rule runs_heads)
  show "\<forall>g \<in> set (runs rows). g \<noteq> [] \<and> (\<forall>x \<in> set g. resource_id x = resource_id (hd g))"
    using runs_nonempty runs_same_resource by blast
  show "(\<exists>r \<in> set rows. task_status_key r = ''openness_score_updated'') \<longrightarrow>
      (\<exists>e. collate rows = Inl e)"
    using collate_stamp_error by (rule impI)
  show "(\<forall>r \<in> set rows. task_status_key r \<noteq> ''openness_score_updated'') \<and>
    (\<forall>g \<in> set (runs rows). \<exists>r \<in> set g. task_status_key r = ''openness_score_reason'') \<longrightarrow>
      (\<exists>dat. collate rows = Inr dat \<and>
         map map_of dat = map record_of (filter (\<lambda>g. \<not> run_excluded g) (runs rows)) \<and>
         (distinct (remdups_adj (map resource_id rows)) \<longrightarrow>
            map map_of dat =
              map (\<lambda>i. record_of (filter (\<lambda>x. resource_id x = i) rows))
                (filter (\<lambda>i. \<not> run_excluded (filter (\<lambda>x. resource_id x = i) rows))
                   (remdups_adj (map resource_id rows)))))"
  proof
    assume a: "(\<forall>r \<in> set rows. task_status_key r \<noteq> ''openness_score_updated'') \<and>
      (\<forall>g \<in> set (runs rows). \<exists>r \<in> set g. task_status_key r = ''openness_score_reason'')"
    then obtain dat where dat: "collate rows = Inr dat"
      "map map_of dat = map record_of (filter (\<lambda>g. \<not> run_excluded g) (runs rows))"
      using collate_records [of rows] by blast
    have "map map_of dat =
              map (\<lambda>i. record_of (filter (\<lambda>x. resource_id x = i) rows))
                (filter (\<lambda>i. \<not> run_excluded (filter (\<lambda>x. resource_id x = i) rows))
                   (remdups_adj (map resource_id rows)))"
      if "distinct (remdups_adj (map resource_id rows))"
      using records_ordered [OF that] dat(2) by (simp only:)
    with dat show "\<exists>dat. collate rows = Inr dat \<and>
         map map_of dat = map record_of (filter (\<lambda>g. \<not> run_excluded g) (runs rows)) \<and>
         (distinct (remdups_adj (map resource_id rows)) \<longrightarrow>
            map map_of dat =
              map (\<lambda>i. record_of (filter (\<lambda>x. resource_id x = i) rows))
                (filter (\<lambda>i. \<not> run_excluded (filter (\<lambda>x. resource_id x = i) rows))
                   (remdups_adj (map resource_id rows))))"
      by blast
  qed
qed

theorem C8_collation_witness:
  "(\<exists>e. collate (scores_rows scenario_stamp ''alpha'') = Inl e) \<and>
   (\<exists>dat. collate (joined_rows scenario) = Inr dat \<and>
      map map_of dat =
        map record_of (filter (\<lambda>g. \<not> run_excluded g) (runs (joined_rows scenario))) \<and>
      map map_of dat =
        map (\<lambda>i. record_of (filter (\<lambda>x. resource_id x = i) (joined_rows scenario)))
          (filter (\<lambda>i. \<not> run_excluded (filter (\<lambda>x. resource_id x = i) (joined_rows scenario)))
             (remdups_adj (map resource_id (joined_rows scenario))))) \<and>
   filter (\<lambda>i. \<not> run_excluded (filter (\<lambda>x. resource_id x = i) (joined_rows scenario)))
     (remdups_adj (map resource_id (joined_rows scenario))) = [''r1'', ''r2'']"
proof -
  have h0: "\<exists>r \<in> set (scores_rows scenario_stamp ''alpha'').
      task_status_key r = ''openness_score_updated''"
    by code_simp
  have h1: "\<forall>r \<in> set (joined_rows scenario). task_status_key r \<noteq> ''openness_score_updated''"
    by code_simp
  have h2: "\<forall>g \<in> set (runs (joined_rows scenario)).
      \<exists>r \<in> set g. task_status_key r = ''openness_score_reason''"
    by code_simp
  have h3: "distinct (remdups_adj (map resource_id (joined_rows scenario)))"
    by code_simp
  have h4: "filter (\<lambda>i. \<not> run_excluded (filter (\<lambda>x. resource_id x = i) (joined_rows scenario)))
     (remdups_adj (map resource_id (joined_rows scenario))) = [''r1'', ''r2'']"
    by code_simp
  from C8_collation [of "scores_rows scenario_stamp ''alpha''"] h0
  have c1: "\<exists>e. collate (scores_rows scenario_stamp ''alpha'') = Inl e"
    by blast
  from C8_collation [of "joined_rows scenario"] h1 h2 h3
  have c2: "\<exists>dat. collate (joined_rows scenario) = Inr dat \<and>
      map map_of dat =
        map record_of (filter (\<lambda>g. \<not> run_excluded g) (runs (joined_rows scenario))) \<and>
      map map_of dat =
        map (\<lambda>i. record_of (filter (\<lambda>x. resource_id x = i) (joined_rows scenario)))
          (filter (\<lambda>i. \<not> run_excluded (filter (\<lambda>x. resource_id x = i) (joined_rows scenario)))
             (remdups_adj (map resource_id (joined_rows scenario))))"
    by blast
  from c1 c2 h4 show ?thesis by blast
qed


section \<open>C4: a record that lacks a status key\<close>

text \<open>
  C4 says that a record with some of the expected status keys missing, for example
  a score without a reason, is delivered with the key absent and that nothing is
  raised. \<open>save_res_data\<close> reads \<open>res_data['openness_score_reason']\<close> of every
  record it flushes, so a record without a reason raises \<open>KeyError\<close> and no report
  is returned.
\<close>

theorem C4_counterexample:
  "scores_by_dataset_for_organisation scenario_partial ''alpha-sub'' = Inl KeyError"
  by code_simp

text \<open>
  C4 as amended: when a resource of the stream has no \<open>openness_score_reason\<close> row,
  the collation raises, and what it raises is \<open>KeyError\<close> when no status key is the
  accumulator's own \<open>openness_score_updated\<close>. Every record that is delivered has a
  reason, and its keys are the five base keys, the status keys of its own rows and
  \<open>openness_score_updated\<close>: any other key, such as a score that was never
  written, is absent, not defaulted.
\<close>

theorem C4_missing_reason:
  "(g \<in> set (runs rows) \<and> (\<forall>r \<in> set g. task_status_key r \<noteq> ''openness_score_reason'') \<longrightarrow>
      (\<exists>e. collate rows = Inl e) \<and>
      ((\<forall>r \<in> set rows. task_status_key r \<noteq> ''openness_score_updated'') \<longrightarrow>
         collate rows = Inl KeyError)) \<and>
   (collate rows = Inr dat \<and> rd \<in> set dat \<longrightarrow>
      map_of rd ''openness_score_reason'' \<noteq> None \<and>
      (\<exists>h \<in> set (runs rows). consolidate h = Inr rd \<and>
         set (od_keys rd) =
           set (od_keys (init_res_data (hd h))) \<union> task_status_key ` set h \<union>
           {''openness_score_updated''}))"
proof (intro conjI impI)
  assume a: "g \<in> set (runs rows) \<and> (\<forall>r \<in> set g. task_status_key r \<noteq> ''openness_score_reason'')"
  then have g: "g \<noteq> []" by (auto dest: runs_nonempty)
  show "\<exists>e. collate rows = Inl e"
  proof (cases "collate rows")
    case (Inl e)
    then show ?thesis by blast
  next
    case (Inr dat0)
    then have "deliver (runs rows) [] = Inr dat0" by (simp add: collate_runs)
    from deliver_filter [OF this] obtain recs where recs:
      "map consolidate (runs rows) = map Inr recs"
      "\<forall>x \<in> set recs. map_of x ''openness_score_reason'' \<noteq> None"
      by blast
    from a have "consolidate g \<in> set (map consolidate (runs rows))" by simp
    then obtain x where x: "consolidate g = Inr x" "x \<in> set recs"
      unfolding recs(1) by auto
    from consolidate_reason [OF g x(1)] a recs(2) x(2) show ?thesis by blast
  qed
  assume k: "\<forall>r \<in> set rows. task_status_key r \<noteq> ''openness_score_updated''"
  have all: "\<forall>h \<in> set (runs rows). \<exists>x. consolidate h = Inr x"
  proof
    fix h
    assume h: "h \<in> set (runs rows)"
    have "set (concat (runs rows)) = set rows" by (simp only: concat_runs)
    with h have "set h \<subseteq> set rows" by auto
    with k have "\<forall>r \<in> set h. task_status_key r \<noteq> ''openness_score_updated''" by blast
    from consolidate_map [OF runs_nonempty [OF h] this] show "\<exists>x. consolidate h = Inr x"
      by blast
  qed
  with a obtain x where x: "consolidate g = Inr x" by blast
  from consolidate_reason [OF g x] a have "map_of x ''openness_score_reason'' = None"
    by blast
  with a all x have "deliver (runs rows) [] = Inl KeyError"
    by (intro deliver_missing [of g]) auto
  then show "collate rows = Inl KeyError" by (simp add: collate_runs)
next
  assume a: "collate rows = Inr dat \<and> rd \<in> set dat"
  then have d: "deliver (runs rows) [] = Inr dat" by (simp add: collate_runs)
  from deliver_filter [OF d] a show "map_of rd ''openness_score_reason'' \<noteq> None"
    by auto
  from deliver_records [OF d] a obtain h where h: "h \<in> set (runs rows)" "consolidate h = Inr rd"
    by auto
  from consolidate_keys [OF runs_nonempty [OF h(1)] consolidate_Inr_keys [OF h(2)] h(2)] h
  show "\<exists>h \<in> set (runs rows). consolidate h = Inr rd \<and>
         set (od_keys rd) =
           set (od_keys (init_res_data (hd h))) \<union> task_status_key ` set h \<union>
           {''openness_score_updated''}"
    by blast
qed

theorem C4_missing_reason_witness:
  "collate (scores_rows scenario_partial ''alpha-sub'') = Inl KeyError \<and>
   map_of r1_partial_record ''openness_score_reason'' \<noteq> None \<and>
   (\<exists>h \<in> set (runs (scores_rows scenario_partial ''alpha'')).
      consolidate h = Inr r1_partial_record \<and>
      set (od_keys r1_partial_record) =
        set (od_keys (init_res_data (hd h))) \<union> task_status_key ` set h \<union>
        {''openness_score_updated''})"
proof -
  have h1: "hd (runs (scores_rows scenario_partial ''alpha-sub'')) \<in>
      set (runs (scores_rows scenario_partial ''alpha-sub''))"
    by code_simp
  have h2: "\<forall>r \<in> set (hd (runs (scores_rows scenario_partial ''alpha-sub''))).
      task_status_key r \<noteq> ''openness_score_reason''"
    by code_simp
  have h3: "\<forall>r \<in> set (scores_rows scenario_partial ''alpha-sub'').
      task_status_key r \<noteq> ''openness_score_updated''"
    by code_simp
  have h4: "collate (scores_rows scenario_partial ''alpha'') = Inr [r1_partial_record] \<and>
      r1_partial_record \<in> set [r1_partial_record]"
    by code_simp
  from C4_missing_reason [of "hd (runs (scores_rows scenario_partial ''alpha-sub''))"
      "scores_rows scenario_partial ''alpha-sub''"] h1 h2 h3
  have c1: "collate (scores_rows scenario_partial ''alpha-sub'') = Inl KeyError"
    by blast
  from C4_missing_reason [of _ "scores_rows scenario_partial ''alpha''"
      "[r1_partial_record]" r1_partial_record] h4
  have c2: "map_of r1_partial_record ''openness_score_reason'' \<noteq> None \<and>
   (\<exists>h \<in> set (runs (scores_rows scenario_partial ''alpha'')).
      consolidate h = Inr r1_partial_record \<and>
      set (od_keys r1_partial_record) =
        set (od_keys (init_res_data (hd h))) \<union> task_status_key ` set h \<union>
        {''openness_score_updated''})"
    by blast
  from c1 c2 show ?thesis by (rule conjI)
qed


section \<open>Facts about the listings\<close>

lemma consolidate_reason_VStr:
  assumes "g \<noteq> []" and "consolidate g = Inr rd" and "map_of rd ''openness_score_reason'' = Some v"
  shows "\<exists>s. v = VStr s"
proof -
  from consolidate_map [OF assms(1) consolidate_Inr_keys [OF assms(2)]] assms(2)
  have "map_of rd = (map_of (init_res_data (hd g)) ++ status_pairs g)(''openness_score_updated'' \<mapsto>
        VTime (Max (task_status_last_updated ` set g)))"
    by auto
  moreover have "map_of (init_res_data (hd g)) ''openness_score_reason'' = None"
    by (simp add: init_res_data_def)
  ultimately have "status_pairs g ''openness_score_reason'' = Some v"
    using assms(3) by (simp add: map_add_def split: option.splits)
  then show ?thesis by (rule status_pairs_VStr)
qed

lemma broken_link_rows_entity:
  "j \<in> set (broken_link_rows d f) \<Longrightarrow>
     \<exists>t \<in> set (db_task_status d). ts_entity_id t = resource_id j \<and>
        ts_task_type t = ''archiver'' \<and> ts_key t = ''status'' \<and>
        ts_value t \<notin> archiver_status__not_broken_link"
  by (auto simp: broken_link_rows_def joined_rows_def archiver_broken_def resource_id_def)

lemma link_row_data_resource:
  "link_row_data json_loads r = Inr x \<Longrightarrow> map_of x ''resource_id'' = Some (VStr (resource_id r))"
  by (auto simp: link_row_data_def Let_def set_last_updated_def link_row_base_def update_conv'
      split: if_splits sum.splits json.splits)

lemma link_rows_data_member:
  "link_rows_data json_loads rows = Inr dat \<Longrightarrow> x \<in> set dat \<Longrightarrow>
     \<exists>r \<in> set rows. link_row_data json_loads r = Inr x"
  by (induction rows arbitrary: dat) (auto split: sum.splits)

lemma set_order_by_package: "set (order_by_package rs) = set rs"
  by (simp add: order_by_package_def)

section \<open>C6: the exclusion sets\<close>

text \<open>
  C6: a resource whose reason (or archiver status) is in the exclusion set of a report
  never appears in the broken listing of that report, whatever its score.

  For \<open>scores_by_dataset_for_organisation\<close> the set is \<open>not_broken_but_0_stars\<close>: the
  listing is the consolidated records of the resources, in order, without those
  whose \<open>openness_score_reason\<close> is in the set, so every listed record has a reason
  outside the set. For the broken-link reports the set is
  \<open>archiver_status__not_broken_link\<close>: a resource whose archiver status rows all have
  a value of the set is in no row that \<open>organisations_with_broken_resource_links\<close>
  counts or \<open>broken_resource_links_for_organisation\<close> selects, whatever the
  organisation filter, and in no record of the listing.
\<close>

theorem C6_exclusion:
  "(scores_by_dataset_for_organisation d n = Inr rep \<longrightarrow>
      (\<exists>recs. map consolidate (runs (scores_rows d n)) = map Inr recs \<and>
         sr_broken_resources rep = filter (\<lambda>x. \<not> excluded x) recs) \<and>
      (\<forall>x \<in> set (sr_broken_resources rep).
         \<exists>s. map_of x ''openness_score_reason'' = Some (VStr s) \<and>
             s \<notin> not_broken_but_0_stars)) \<and>
   ((\<forall>t \<in> set (db_task_status d).
       ts_entity_id t = i \<and> ts_task_type t = ''archiver'' \<and> ts_key t = ''status'' \<longrightarrow>
       ts_value t \<in> archiver_status__not_broken_link) \<longrightarrow>
      (\<forall>j \<in> set (broken_link_rows d f). resource_id j \<noteq> i) \<and>
      (broken_resource_links_for_organisation json_loads go_down_tree d n sub = Inr lrep \<longrightarrow>
         (\<forall>x \<in> set (or_data lrep). map_of x ''resource_id'' \<noteq> Some (VStr i))))"
proof (intro conjI impI)
  assume "scores_by_dataset_for_organisation d n = Inr rep"
  then have d: "deliver (runs (scores_rows d n)) [] = Inr (sr_broken_resources rep)"
    by (auto simp: scores_by_dataset_for_organisation_def scores_report_of_def collate_runs
        split: sum.splits)
  from deliver_filter [OF d] obtain recs where recs:
    "map consolidate (runs (scores_rows d n)) = map Inr recs"
    "sr_broken_resources rep = filter (\<lambda>x. \<not> excluded x) recs"
    "\<forall>x \<in> set recs. map_of x ''openness_score_reason'' \<noteq> None"
    by auto
  from recs(1,2) show "\<exists>recs. map consolidate (runs (scores_rows d n)) = map Inr recs \<and>
         sr_broken_resources rep = filter (\<lambda>x. \<not> excluded x) recs"
    by blast
  show "\<forall>x \<in> set (sr_broken_resources rep).
         \<exists>s. map_of x ''openness_score_reason'' = Some (VStr s) \<and> s \<notin> not_broken_but_0_stars"
  proof
    fix x
    assume x: "x \<in> set (sr_broken_resources rep)"
    with recs(2) have xr: "x \<in> set recs" and nx: "\<not> excluded x" by auto
    from xr recs(3) obtain v where v: "map_of x ''openness_score_reason'' = Some v" by auto
    from xr have "Inr x \<in> set (map consolidate (runs (scores_rows d n)))"
      unfolding recs(1) by simp
    then obtain g where g: "g \<in> set (runs (scores_rows d n))" "consolidate g = Inr x"
      by auto
    from consolidate_reason_VStr [OF runs_nonempty [OF g(1)] g(2) v] obtain s where "v = VStr s"
      by blast
    with v nx show "\<exists>s. map_of x ''openness_score_reason'' = Some (VStr s) \<and>
        s \<notin> not_broken_but_0_stars"
      by (simp add: excluded_def in_strings_def)
  qed
next
  assume a: "\<forall>t \<in> set (db_task_status d).
       ts_entity_id t = i \<and> ts_task_type t = ''archiver'' \<and> ts_key t = ''status'' \<longrightarrow>
       ts_value t \<in> archiver_status__not_broken_link"
  have rows: "resource_id j \<noteq> i" if "j \<in> set (broken_link_rows d f')" for j f'
    using broken_link_rows_entity [OF that] a by blast
  then show "\<forall>j \<in> set (broken_link_rows d f). resource_id j \<noteq> i" by blast
  assume "broken_resource_links_for_organisation json_loads go_down_tree d n sub = Inr lrep"
  then obtain f' where dat: "link_rows_data json_loads (order_by_package (broken_link_rows d f')) =
      Inr (or_data lrep)"
    by (auto simp: broken_resource_links_for_organisation_def split: sum.splits option.splits)
  show "\<forall>x \<in> set (or_data lrep). map_of x ''resource_id'' \<noteq> Some (VStr i)"
  proof
    fix x
    assume "x \<in> set (or_data lrep)"
    from link_rows_data_member [OF dat this] obtain r where
      r: "r \<in> set (broken_link_rows d f')" "link_row_data json_loads r = Inr x"
      by (auto simp: set_order_by_package)
    from link_row_data_resource [OF r(2)] rows [OF r(1)]
    show "map_of x ''resource_id'' \<noteq> Some (VStr i)" by simp
  qed
qed

theorem C6_exclusion_witness:
  "(\<exists>recs. map consolidate (runs (scores_rows scenario ''alpha'')) = map Inr recs \<and>
      [r1_record] = filter (\<lambda>x. \<not> excluded x) recs) \<and>
   (\<exists>s. map_of r1_record ''openness_score_reason'' = Some (VStr s) \<and>
      s \<notin> not_broken_but_0_stars) \<and>
   ''r3'' \<notin> resource_id ` set (broken_link_rows scenario all_active)"
proof -
  have h1: "scores_by_dataset_for_organisation scenario ''alpha'' =
      Inr \<lparr>sr_publisher_name = ''alpha'', sr_publisher_title = ''Alpha'',
           sr_broken_resources = [r1_record]\<rparr>"
    by code_simp
  have h2: "\<forall>t \<in> set (db_task_status scenario).
       ts_entity_id t = ''r3'' \<and> ts_task_type t = ''archiver'' \<and> ts_key t = ''status'' \<longrightarrow>
       ts_value t \<in> archiver_status__not_broken_link"
    by code_simp
  note c = C6_exclusion [of scenario "''alpha''"
      "\<lparr>sr_publisher_name = ''alpha'', sr_publisher_title = ''Alpha'',
        sr_broken_resources = [r1_record]\<rparr>" "''r3''" all_active]
  from c h1 have p1: "(\<exists>recs. map consolidate (runs (scores_rows scenario ''alpha'')) = map Inr recs \<and>
      [r1_record] = filter (\<lambda>x. \<not> excluded x) recs) \<and>
   (\<exists>s. map_of r1_record ''openness_score_reason'' = Some (VStr s) \<and>
      s \<notin> not_broken_but_0_stars)"
    by simp
  from c h2 have "\<forall>j \<in> set (broken_link_rows scenario all_active). resource_id j \<noteq> ''r3''"
    by blast
  then have p2: "''r3'' \<notin> resource_id ` set (broken_link_rows scenario all_active)"
    by (metis imageE)
  from p1 p2 show ?thesis by blast
qed

lemma link_rows_data_error:
  assumes "\<forall>x \<in> set pre. task_status_error x = []"
    and "task_status_error r \<noteq> []" and "json_loads (task_status_error r) = Inl e"
  shows "link_rows_data json_loads (pre @ r # post) = Inl e"
  using assms by (induction pre) (simp_all add: link_row_data_def)

lemma link_rows_data_plain:
  assumes "\<forall>x \<in> set rows. task_status_error x = []"
  shows "link_rows_data json_loads rows =
     Inr (map (\<lambda>r. set_last_updated r (link_row_base r)) rows)"
  using assms by (induction rows) (simp_all add: link_row_data_def)

section \<open>C3: an error payload that does not parse\<close>

text \<open>
  C3 says that \<open>broken_resource_links_for_organisation\<close> skips an error field that
  does not parse and still returns the report of all other rows. The function calls
  \<open>json.loads\<close> on every error field that is not empty and catches nothing: with
  one payload that is not JSON (the row of \<open>r4\<close> below, after the well-formed row of
  \<open>r1\<close>) the whole report is a \<open>ValueError\<close>.
\<close>

theorem C3_counterexample:
  "broken_resource_links_for_organisation example_loads scenario_down scenario_payload
     ''alpha'' True = Inl ValueError"
  by code_simp

text \<open>
  C3 as amended: when the first selected row with an error field that is not empty
  carries a text that \<open>json.loads\<close> rejects, \<open>broken_resource_links_for_organisation\<close>
  raises that error and returns no report; the payload is not skipped. When every
  selected row has an empty error field and the organisation exists, the report has
  one record for each row, in the order of the query, with the eight base keys of
  the row and \<open>last_updated\<close>.
\<close>

theorem C3_error_payload:
  "(org_filter d go_down_tree n sub = Inr f \<and>
    order_by_package (broken_link_rows d f) = pre @ r # post \<and>
    (\<forall>x \<in> set pre. task_status_error x = []) \<and>
    task_status_error r \<noteq> [] \<and> json_loads (task_status_error r) = Inl e \<longrightarrow>
      broken_resource_links_for_organisation json_loads go_down_tree d n sub = Inl e) \<and>
   (org_filter d go_down_tree n sub = Inr f \<and>
    (\<forall>x \<in> set (broken_link_rows d f). task_status_error x = []) \<and>
    Group_by_name d n = Some g \<longrightarrow>
      broken_resource_links_for_organisation json_loads go_down_tree d n sub =
        Inr \<lparr>or_publisher_name = n, or_publisher_title = grp_title g,
             or_data = map (\<lambda>r. set_last_updated r (link_row_base r))
                         (order_by_package (broken_link_rows d f))\<rparr>)"
proof (intro conjI impI)
  assume a: "org_filter d go_down_tree n sub = Inr f \<and>
    order_by_package (broken_link_rows d f) = pre @ r # post \<and>
    (\<forall>x \<in> set pre. task_status_error x = []) \<and>
    task_status_error r \<noteq> [] \<and> json_loads (task_status_error r) = Inl e"
  then have "link_rows_data json_loads (order_by_package (broken_link_rows d f)) = Inl e"
    using link_rows_data_error [of pre r json_loads e post] by simp
  with a show "broken_resource_links_for_organisation json_loads go_down_tree d n sub = Inl e"
    by (simp add: broken_resource_links_for_organisation_def)
next
  assume a: "org_filter d go_down_tree n sub = Inr f \<and>
    (\<forall>x \<in> set (broken_link_rows d f). task_status_error x = []) \<and>
    Group_by_name d n = Some g"
  then have "\<forall>x \<in> set (order_by_package (broken_link_rows d f)). task_status_error x = []"
    by (simp add: set_order_by_package)
  from link_rows_data_plain [OF this] a
  show "broken_resource_links_for_organisation json_loads go_down_tree d n sub =
        Inr \<lparr>or_publisher_name = n, or_publisher_title = grp_title g,
             or_data = map (\<lambda>r. set_last_updated r (link_row_base r))
                         (order_by_package (broken_link_rows d f))\<rparr>"
    by (simp add: broken_resource_links_for_organisation_def)
qed

theorem C3_error_payload_witness:
  "broken_resource_links_for_organisation example_loads scenario_down scenario_payload
     ''alpha'' True = Inl ValueError \<and>
   broken_resource_links_for_organisation example_loads scenario_down scenario ''alpha'' False =
     Inr \<lparr>or_publisher_name = ''alpha'', or_publisher_title = grp_title alpha,
          or_data = map (\<lambda>r. set_last_updated r (link_row_base r))
            (order_by_package (broken_link_rows scenario (\<lambda>j. publisher_name j = ''alpha'')))\<rparr>"
proof -
  let ?f = "\<lambda>j. publisher_name j \<in> set (map grp_name (scenario_down alpha))"
  let ?rows = "order_by_package (broken_link_rows scenario_payload ?f)"
  have h1: "org_filter scenario_payload scenario_down ''alpha'' True = Inr ?f"
    by (simp add: org_filter_def Group_by_name_def scenario_payload_def scenario_def alpha_def)
  have h2: "?rows = [hd ?rows] @ (?rows ! 1) # [] \<and>
      (\<forall>x \<in> set [hd ?rows]. task_status_error x = []) \<and>
      task_status_error (?rows ! 1) \<noteq> [] \<and>
      example_loads (task_status_error (?rows ! 1)) = Inl ValueError"
    by code_simp
  let ?g = "\<lambda>j. publisher_name j = ''alpha''"
  have h3: "org_filter scenario scenario_down ''alpha'' False = Inr ?g"
    by (simp add: org_filter_def)
  have h4: "(\<forall>x \<in> set (broken_link_rows scenario ?g). task_status_error x = []) \<and>
      Group_by_name scenario ''alpha'' = Some alpha"
    by code_simp
  from C3_error_payload [where d = scenario_payload and go_down_tree = scenario_down
      and n = "''alpha''" and sub = True and f = ?f and pre = "[hd ?rows]" and r = "?rows ! 1"
      and post = "[]" and json_loads = example_loads and e = ValueError] h1 h2
  have c1: "broken_resource_links_for_organisation example_loads scenario_down scenario_payload
     ''alpha'' True = Inl ValueError"
    by blast
  from C3_error_payload [where d = scenario and go_down_tree = scenario_down and n = "''alpha''"
      and sub = False and f = ?g and g = alpha and json_loads = example_loads] h3 h4
  have c2: "broken_resource_links_for_organisation example_loads scenario_down scenario ''alpha'' False =
     Inr \<lparr>or_publisher_name = ''alpha'', or_publisher_title = grp_title alpha,
          or_data = map (\<lambda>r. set_last_updated r (link_row_base r))
            (order_by_package (broken_link_rows scenario ?g))\<rparr>"
    by blast
  from c1 c2 show ?thesis by (rule conjI)
qed

section \<open>Facts about the roll-up\<close>

text \<open>Sums over lists and searches in them.\<close>

lemma find_map_option: "find P (map f xs) = map_option f (find (\<lambda>x. P (f x)) xs)"
  by (induction xs) simp_all

lemma find_key: "find (\<lambda>x. fst x = k) xs = map_option (Pair k) (map_of xs k)"
  by (induction xs) auto

lemma find_unique_sum:
  "distinct (map f xs) \<Longrightarrow>
     (case find (\<lambda>x. f x = a) xs of None \<Rightarrow> 0 | Some x \<Rightarrow> w x) =
     (\<Sum>x\<leftarrow>xs. if f x = a then w x else (0::nat))"
proof (induction xs)
  case Nil
  then show ?case by simp
next
  case (Cons x xs)
  show ?case
  proof (cases "f x = a")
    case True
    from Cons.prems have "f x \<notin> f ` set xs" by simp
    with True have "\<forall>y \<in> set xs. f y \<noteq> a" by (metis imageI)
    then have "(\<Sum>y\<leftarrow>xs. if f y = a then w y else 0) = 0"
      by (induction xs) auto
    with True show ?thesis by simp
  next
    case False
    with Cons show ?thesis by simp
  qed
qed

lemma sum_list_swap:
  "(\<Sum>x\<leftarrow>xs. \<Sum>y\<leftarrow>ys. (f x y :: nat)) = (\<Sum>y\<leftarrow>ys. \<Sum>x\<leftarrow>xs. f x y)"
  by (induction xs) (simp_all add: sum_list_addf)

lemma count_list_sum_distinct:
  "distinct ys \<Longrightarrow> (\<Sum>c\<leftarrow>ys. if g = c then 1 else (0::nat)) = (if g \<in> set ys then 1 else 0)"
  by (induction ys) auto

lemma int_sum_list: "int (\<Sum>x\<leftarrow>xs. f x) = (\<Sum>x\<leftarrow>xs. int (f x))"
  by (induction xs) simp_all

text \<open>
  A walk that starts at a group and continues with the walk of its parent: how often
  it meets a group.
\<close>

lemma walk_count:
  assumes walk: "\<forall>g \<in> set G. up g = g # (case parent g of None \<Rightarrow> [] | Some p \<Rightarrow> up p)"
    and closed: "\<forall>g \<in> set G. \<forall>p. parent g = Some p \<longrightarrow> p \<in> set G"
    and dist: "distinct G"
    and g: "g \<in> set G"
  shows "count_list (up g) O' =
     (if g = O' then 1 else 0) + (\<Sum>c\<leftarrow>filter (\<lambda>c. parent c = Some O') G. count_list (up g) c)"
  using g
proof (induction "length (up g)" arbitrary: g rule: less_induct)
  case less
  let ?ch = "filter (\<lambda>c. parent c = Some O') G"
  have dch: "distinct ?ch" using dist by simp
  show ?case
  proof (cases "parent g")
    case None
    with walk less.prems have up: "up g = [g]" by auto
    have "(\<Sum>c\<leftarrow>?ch. count_list [g] c) = (\<Sum>c\<leftarrow>?ch. if g = c then 1 else 0)"
      by (rule arg_cong [where f = sum_list]) (simp cong: map_cong)
    also have "\<dots> = (if g \<in> set ?ch then 1 else 0)"
      using dch by (rule count_list_sum_distinct)
    also have "\<dots> = 0" using None by simp
    finally show ?thesis unfolding up by simp
  next
    case (Some p)
    with walk less.prems have up: "up g = g # up p" by auto
    from closed less.prems Some have p: "p \<in> set G" by blast
    have IH: "count_list (up p) O' =
       (if p = O' then 1 else 0) + (\<Sum>c\<leftarrow>?ch. count_list (up p) c)"
      using up p by (intro less.hyps) simp_all
    have cl: "count_list (g # xs) y = count_list xs y + (if g = y then 1 else 0)" for xs y
      by simp
    have "(\<Sum>c\<leftarrow>?ch. count_list (g # up p) c) =
        (\<Sum>c\<leftarrow>?ch. count_list (up p) c + (if g = c then 1 else 0))"
      by (simp only: cl)
    also have "\<dots> = (\<Sum>c\<leftarrow>?ch. count_list (up p) c) + (\<Sum>c\<leftarrow>?ch. if g = c then 1 else 0)"
      by (simp add: sum_list_addf)
    also have "(\<Sum>c\<leftarrow>?ch. if g = c then 1 else 0) = (if g \<in> set ?ch then 1 else (0::nat))"
      using dch by (rule count_list_sum_distinct)
    also have "\<dots> = (if p = O' then 1 else 0)"
      using Some less.prems by auto
    finally have E: "(\<Sum>c\<leftarrow>?ch. count_list (g # up p) c) =
        (\<Sum>c\<leftarrow>?ch. count_list (up p) c) + (if p = O' then 1 else 0)" .
    have "count_list (up g) O' = count_list (up p) O' + (if g = O' then 1 else 0)"
      by (simp only: up cl)
    also have "\<dots> = (if g = O' then 1 else 0) +
        ((\<Sum>c\<leftarrow>?ch. count_list (up p) c) + (if p = O' then 1 else 0))"
      by (simp only: IH ac_simps)
    also have "\<dots> = (if g = O' then 1 else 0) + (\<Sum>c\<leftarrow>?ch. count_list (up g) c)"
      by (simp only: up E)
    finally show ?thesis .
  qed
qed

text \<open>The dictionary of counts after the loop over the rows.\<close>

lemma look_add_counts:
  "look (add_counts r p c) P =
     (if P = p then (fst (look c p) + cr_broken_package_count r,
                     snd (look c p) + cr_broken_resource_count r)
      else look c P)"
  by (auto simp: look_def add_counts_def update_conv' split: option.splits prod.splits)

lemma look_fold_add_counts:
  "look (fold (add_counts r) ps c) P =
     (fst (look c P) + count_list ps P * cr_broken_package_count r,
      snd (look c P) + count_list ps P * cr_broken_resource_count r)"
  by (induction ps arbitrary: c) (auto simp: look_add_counts)

lemma keys_add_counts: "fst ` set (add_counts r p c) = insert p (fst ` set c)"
  by (auto simp: add_counts_def update_keys split: option.splits prod.splits
      simp flip: set_map)

lemma keys_fold_add_counts: "fst ` set (fold (add_counts r) ps c) = set ps \<union> fst ` set c"
  by (induction ps arbitrary: c) (auto simp: keys_add_counts)

lemma distinct_add_counts: "distinct (map fst c) \<Longrightarrow> distinct (map fst (add_counts r p c))"
  by (auto simp: add_counts_def distinct_update split: option.splits prod.splits)

lemma distinct_fold_add_counts:
  "distinct (map fst c) \<Longrightarrow> distinct (map fst (fold (add_counts r) ps c))"
  by (induction ps arbitrary: c) (auto simp: distinct_add_counts)

lemma rollup_result:
  assumes "\<forall>r \<in> set rs. \<exists>g. Group_by_name d (cr_publisher_name r) = Some g"
    and "distinct (map fst c)"
  shows "\<exists>c'. rollup d up c rs = Inr c' \<and> distinct (map fst c') \<and>
     fst ` set c' = fst ` set c \<union>
       (\<Union>r \<in> set rs. set (up (the (Group_by_name d (cr_publisher_name r))))) \<and>
     (\<forall>P. look c' P =
        (fst (look c P) +
           (\<Sum>r\<leftarrow>rs. count_list (up (the (Group_by_name d (cr_publisher_name r)))) P *
              cr_broken_package_count r),
         snd (look c P) +
           (\<Sum>r\<leftarrow>rs. count_list (up (the (Group_by_name d (cr_publisher_name r)))) P *
              cr_broken_resource_count r)))"
  using assms
proof (induction rs arbitrary: c)
  case Nil
  then show ?case by simp
next
  case (Cons r rs)
  from Cons.prems(1) obtain g where g: "Group_by_name d (cr_publisher_name r) = Some g"
    by auto
  let ?c1 = "fold (add_counts r) (up g) c"
  have d1: "distinct (map fst ?c1)"
    using Cons.prems(2) by (rule distinct_fold_add_counts)
  from Cons.prems(1) have "\<forall>r \<in> set rs. \<exists>g. Group_by_name d (cr_publisher_name r) = Some g"
    by simp
  from Cons.IH [OF this d1] obtain c' where c':
    "rollup d up ?c1 rs = Inr c'" "distinct (map fst c')"
    "fst ` set c' = fst ` set ?c1 \<union>
       (\<Union>r \<in> set rs. set (up (the (Group_by_name d (cr_publisher_name r)))))"
    "\<forall>P. look c' P =
        (fst (look ?c1 P) +
           (\<Sum>r\<leftarrow>rs. count_list (up (the (Group_by_name d (cr_publisher_name r)))) P *
              cr_broken_package_count r),
         snd (look ?c1 P) +
           (\<Sum>r\<leftarrow>rs. count_list (up (the (Group_by_name d (cr_publisher_name r)))) P *
              cr_broken_resource_count r))"
    by blast
  have "rollup d up c (r # rs) = Inr c'" using g c'(1) by simp
  moreover have "fst ` set c' = fst ` set c \<union>
       (\<Union>r \<in> set (r # rs). set (up (the (Group_by_name d (cr_publisher_name r)))))"
    unfolding c'(3) keys_fold_add_counts using g by auto
  moreover have "\<forall>P. look c' P =
        (fst (look c P) +
           (\<Sum>r\<leftarrow>r # rs. count_list (up (the (Group_by_name d (cr_publisher_name r)))) P *
              cr_broken_package_count r),
         snd (look c P) +
           (\<Sum>r\<leftarrow>r # rs. count_list (up (the (Group_by_name d (cr_publisher_name r)))) P *
              cr_broken_resource_count r))"
    using c'(4) g by (simp add: look_fold_add_counts)
  ultimately show ?case using c'(2) by blast
qed

lemma find_by_name:
  "distinct (map grp_name G) \<Longrightarrow> g \<in> set G \<Longrightarrow> find (\<lambda>x. grp_name x = grp_name g) G = Some g"
proof (induction G)
  case Nil
  then show ?case by simp
next
  case (Cons a G)
  show ?case
  proof (cases "a = g")
    case True
    then show ?thesis by simp
  next
    case False
    with Cons.prems have g: "g \<in> set G" by simp
    with Cons.prems have "grp_name a \<noteq> grp_name g" by (metis distinct.simps(2) imageI list.simps(9) set_map)
    with Cons g show ?thesis by simp
  qed
qed

lemma broken_link_rows_group:
  "j \<in> set (broken_link_rows d f) \<Longrightarrow> j_grp j \<in> set (db_group d)"
  by (auto simp: broken_link_rows_def dest: joined_rows_group)

lemma count_rows_group:
  assumes "r \<in> set (count_rows d)"
  shows "\<exists>g \<in> set (db_group d). grp_name g = cr_publisher_name r \<and> grp_title g = cr_publisher_title r"
proof -
  from assms obtain j where "j \<in> set (broken_link_rows d (\<lambda>j. True))"
    "cr_publisher_name r = publisher_name j" "cr_publisher_title r = publisher_title j"
    by (auto simp: count_rows_def Let_def)
  then show ?thesis
    using broken_link_rows_group [of j d "\<lambda>j. True"]
    by (auto simp: publisher_name_def publisher_title_def)
qed

lemma distinct_map_sort_key: "distinct (map f (sort_key k xs)) = distinct (map f xs)"
  by (simp add: distinct_map)

lemma count_rows_distinct:
  assumes "distinct (map grp_name (db_group d))"
  shows "distinct (map cr_publisher_name (count_rows d))"
proof -
  let ?js = "broken_link_rows d (\<lambda>j. True)"
  let ?keys = "remdups (map (\<lambda>j. (publisher_name j, publisher_title j)) ?js)"
  have inj: "inj_on fst (set ?keys)"
  proof (rule inj_onI)
    fix x y
    assume x: "x \<in> set ?keys" and y: "y \<in> set ?keys" and e: "fst x = fst y"
    from x obtain g where g: "g \<in> set (db_group d)" "x = (grp_name g, grp_title g)"
      using broken_link_rows_group [of _ d "\<lambda>j. True"]
      by (auto simp: publisher_name_def publisher_title_def)
    from y obtain h where h: "h \<in> set (db_group d)" "y = (grp_name h, grp_title h)"
      using broken_link_rows_group [of _ d "\<lambda>j. True"]
      by (auto simp: publisher_name_def publisher_title_def)
    from e g h have "grp_name g = grp_name h" by simp
    with assms g(1) h(1) have "g = h" by (metis find_by_name option.inject)
    with g h show "x = y" by simp
  qed
  have "distinct (map fst ?keys)"
    using inj by (simp add: distinct_map)
  moreover have "map cr_publisher_name
      (map (\<lambda>(n, t). \<lparr>cr_broken_package_count =
             length (remdups [package_id j.
                        j \<leftarrow> ?js, (publisher_name j, publisher_title j) = (n, t)]),
           cr_broken_resource_count =
             length [j \<leftarrow> ?js. (publisher_name j, publisher_title j) = (n, t)],
           cr_publisher_name = n, cr_publisher_title = t\<rparr>) ?keys) = map fst ?keys"
    by (simp add: case_prod_unfold)
  ultimately show ?thesis
    unfolding count_rows_def Let_def distinct_map_sort_key
    by (simp add: case_prod_unfold comp_def)
qed

lemma walk_subset:
  assumes walk: "\<forall>g \<in> set G. up g = g # (case parent g of None \<Rightarrow> [] | Some p \<Rightarrow> up p)"
    and closed: "\<forall>g \<in> set G. \<forall>p. parent g = Some p \<longrightarrow> p \<in> set G"
    and g: "g \<in> set G"
  shows "set (up g) \<subseteq> set G"
  using g
proof (induction "length (up g)" arbitrary: g rule: less_induct)
  case less
  show ?case
  proof (cases "parent g")
    case None
    with walk less.prems have "up g = [g]" by auto
    with less.prems show ?thesis by simp
  next
    case (Some p)
    with walk less.prems have up: "up g = g # up p" by auto
    from closed less.prems Some have p: "p \<in> set G" by blast
    have "set (up p) \<subseteq> set G" using up p by (intro less.hyps) simp_all
    with up less.prems show ?thesis by simp
  qed
qed

lemma total_additive:
  fixes w :: "'r \<Rightarrow> nat"
  assumes walk: "\<forall>g \<in> set G. up g = g # (case parent g of None \<Rightarrow> [] | Some p \<Rightarrow> up p)"
    and closed: "\<forall>g \<in> set G. \<forall>p. parent g = Some p \<longrightarrow> p \<in> set G"
    and dist: "distinct G"
    and rs: "\<forall>r \<in> set rs. gr r \<in> set G"
  shows "(\<Sum>r\<leftarrow>rs. count_list (up (gr r)) O' * w r) =
     (\<Sum>r\<leftarrow>rs. if gr r = O' then w r else 0) +
     (\<Sum>c\<leftarrow>filter (\<lambda>c. parent c = Some O') G. \<Sum>r\<leftarrow>rs. count_list (up (gr r)) c * w r)"
proof -
  let ?ch = "filter (\<lambda>c. parent c = Some O') G"
  have summand: "count_list (up (gr r)) O' * w r =
      (if gr r = O' then w r else 0) + (\<Sum>c\<leftarrow>?ch. count_list (up (gr r)) c * w r)"
    if "r \<in> set rs" for r
  proof -
    from that rs have "gr r \<in> set G" by blast
    from walk_count [OF walk closed dist this, of O']
    have "count_list (up (gr r)) O' * w r =
        ((if gr r = O' then 1 else 0) + (\<Sum>c\<leftarrow>?ch. count_list (up (gr r)) c)) * w r"
      by simp
    also have "\<dots> = (if gr r = O' then w r else 0) + (\<Sum>c\<leftarrow>?ch. count_list (up (gr r)) c) * w r"
      by (simp add: add_mult_distrib)
    also have "(\<Sum>c\<leftarrow>?ch. count_list (up (gr r)) c) * w r = (\<Sum>c\<leftarrow>?ch. count_list (up (gr r)) c * w r)"
      by (simp add: sum_list_mult_const)
    finally show ?thesis .
  qed
  have "(\<Sum>r\<leftarrow>rs. count_list (up (gr r)) O' * w r) =
      (\<Sum>r\<leftarrow>rs. (if gr r = O' then w r else 0) + (\<Sum>c\<leftarrow>?ch. count_list (up (gr r)) c * w r))"
    by (rule arg_cong [where f = sum_list]) (rule map_cong, rule refl, rule summand)
  also have "\<dots> = (\<Sum>r\<leftarrow>rs. if gr r = O' then w r else 0) +
      (\<Sum>r\<leftarrow>rs. \<Sum>c\<leftarrow>?ch. count_list (up (gr r)) c * w r)"
    by (simp add: sum_list_addf)
  also have "(\<Sum>r\<leftarrow>rs. \<Sum>c\<leftarrow>?ch. count_list (up (gr r)) c * w r) =
      (\<Sum>c\<leftarrow>?ch. \<Sum>r\<leftarrow>rs. count_list (up (gr r)) c * w r)"
    by (rule sum_list_swap)
  finally show ?thesis .
qed

lemma map_of_sort_key: "distinct (map fst c) \<Longrightarrow> map_of (sort_key k c) = map_of c"
  by (simp add: map_of_inject_set distinct_map_sort_key)

lemma count_row_data_name:
  "map_of (count_row_data t n pc rc) ''publisher_name'' = Some (VStr n)"
  by (simp add: count_row_data_def)

lemma count_row_data_counts:
  "map_of (count_row_data t n pc rc) ''broken_package_count'' = Some (VInt (int pc))"
  "map_of (count_row_data t n pc rc) ''broken_resource_count'' = Some (VInt (int rc))"
  by (simp_all add: count_row_data_def)

lemma flat_reported:
  assumes "distinct (map cr_publisher_name rs)"
  shows "reported_count
      (map (\<lambda>r. count_row_data (cr_publisher_title r) (cr_publisher_name r)
                (cr_broken_package_count r) (cr_broken_resource_count r)) rs) n
      ''broken_package_count'' =
      int (\<Sum>r\<leftarrow>rs. if cr_publisher_name r = n then cr_broken_package_count r else 0)"
    and "reported_count
      (map (\<lambda>r. count_row_data (cr_publisher_title r) (cr_publisher_name r)
                (cr_broken_package_count r) (cr_broken_resource_count r)) rs) n
      ''broken_resource_count'' =
      int (\<Sum>r\<leftarrow>rs. if cr_publisher_name r = n then cr_broken_resource_count r else 0)"
proof -
  have f: "find (\<lambda>r. map_of r ''publisher_name'' = Some (VStr n))
      (map (\<lambda>r. count_row_data (cr_publisher_title r) (cr_publisher_name r)
                (cr_broken_package_count r) (cr_broken_resource_count r)) rs) =
     map_option (\<lambda>r. count_row_data (cr_publisher_title r) (cr_publisher_name r)
                (cr_broken_package_count r) (cr_broken_resource_count r))
       (find (\<lambda>r. cr_publisher_name r = n) rs)"
    by (simp add: find_map_option count_row_data_name)
  show "reported_count
      (map (\<lambda>r. count_row_data (cr_publisher_title r) (cr_publisher_name r)
                (cr_broken_package_count r) (cr_broken_resource_count r)) rs) n
      ''broken_package_count'' =
      int (\<Sum>r\<leftarrow>rs. if cr_publisher_name r = n then cr_broken_package_count r else 0)"
    unfolding reported_count_def f
      find_unique_sum [OF assms, where a = n and w = cr_broken_package_count, symmetric]
    by (simp add: count_row_data_counts split: option.splits)
  show "reported_count
      (map (\<lambda>r. count_row_data (cr_publisher_title r) (cr_publisher_name r)
                (cr_broken_package_count r) (cr_broken_resource_count r)) rs) n
      ''broken_resource_count'' =
      int (\<Sum>r\<leftarrow>rs. if cr_publisher_name r = n then cr_broken_resource_count r else 0)"
    unfolding reported_count_def f
      find_unique_sum [OF assms, where a = n and w = cr_broken_resource_count, symmetric]
    by (simp add: count_row_data_counts split: option.splits)
qed

lemma rolled_reported:
  assumes dk: "distinct (map fst c)" and keys: "fst ` set c \<subseteq> set G"
    and dn: "distinct (map grp_name G)" and org: "org \<in> set G"
  shows "reported_count
      (map (\<lambda>(g, pc, rc). count_row_data (grp_title g) (grp_name g) pc rc)
         (sort_key (\<lambda>x. grp_title (fst x)) c)) (grp_name org) ''broken_package_count'' =
      int (fst (look c org))"
    and "reported_count
      (map (\<lambda>(g, pc, rc). count_row_data (grp_title g) (grp_name g) pc rc)
         (sort_key (\<lambda>x. grp_title (fst x)) c)) (grp_name org) ''broken_resource_count'' =
      int (snd (look c org))"
proof -
  let ?xs = "sort_key (\<lambda>x. grp_title (fst x)) c"
  let ?mk = "\<lambda>(g, pc, rc). count_row_data (grp_title g) (grp_name g) pc rc"
  have "find (\<lambda>r. map_of r ''publisher_name'' = Some (VStr (grp_name org))) (map ?mk ?xs) =
      map_option ?mk (find (\<lambda>x. grp_name (fst x) = grp_name org) ?xs)"
    by (simp add: find_map_option count_row_data_name case_prod_unfold)
  also have "find (\<lambda>x. grp_name (fst x) = grp_name org) ?xs = find (\<lambda>x. fst x = org) ?xs"
  proof (rule find_cong [OF refl])
    fix x
    assume "x \<in> set ?xs"
    with keys have "fst x \<in> set G" by auto
    with dn org show "(grp_name (fst x) = grp_name org) = (fst x = org)"
      by (metis find_by_name option.inject)
  qed
  also have "\<dots> = map_option (Pair org) (map_of c org)"
    by (simp add: find_key map_of_sort_key [OF dk])
  finally have f: "find (\<lambda>r. map_of r ''publisher_name'' = Some (VStr (grp_name org))) (map ?mk ?xs) =
      map_option ?mk (map_option (Pair org) (map_of c org))" .
  show "reported_count (map ?mk ?xs) (grp_name org) ''broken_package_count'' =
      int (fst (look c org))"
    unfolding reported_count_def f
    by (simp add: look_def count_row_data_counts split: option.splits)
  show "reported_count (map ?mk ?xs) (grp_name org) ''broken_resource_count'' =
      int (snd (look c org))"
    unfolding reported_count_def f
    by (simp add: look_def count_row_data_counts split: option.splits)
qed

lemma walk_suffix:
  assumes walk: "\<forall>g \<in> set G. up g = g # (case parent g of None \<Rightarrow> [] | Some p \<Rightarrow> up p)"
    and closed: "\<forall>g \<in> set G. \<forall>p. parent g = Some p \<longrightarrow> p \<in> set G"
    and g: "g \<in> set G" and x: "x \<in> set (up g)"
  shows "\<exists>pre. up g = pre @ up x"
  using g x
proof (induction "length (up g)" arbitrary: g rule: less_induct)
  case less
  show ?case
  proof (cases "x = g")
    case True
    then show ?thesis by simp
  next
    case False
    show ?thesis
    proof (cases "parent g")
      case None
      with walk less.prems have "up g = [g]" by auto
      with less.prems False show ?thesis by simp
    next
      case (Some p)
      with walk less.prems have up: "up g = g # up p" by auto
      from closed less.prems Some have p: "p \<in> set G" by blast
      from less.prems(2) False up have xp: "x \<in> set (up p)" by simp
      have "\<exists>pre. up p = pre @ up x" using up p xp by (intro less.hyps) simp_all
      then obtain pre where "up p = pre @ up x" by blast
      with up have "up g = (g # pre) @ up x" by simp
      then show ?thesis by blast
    qed
  qed
qed

lemma walk_distinct:
  assumes walk: "\<forall>g \<in> set G. up g = g # (case parent g of None \<Rightarrow> [] | Some p \<Rightarrow> up p)"
    and closed: "\<forall>g \<in> set G. \<forall>p. parent g = Some p \<longrightarrow> p \<in> set G"
    and g: "g \<in> set G"
  shows "distinct (up g)"
  using g
proof (induction "length (up g)" arbitrary: g rule: less_induct)
  case less
  show ?case
  proof (cases "parent g")
    case None
    with walk less.prems have "up g = [g]" by auto
    then show ?thesis by simp
  next
    case (Some p)
    with walk less.prems have up: "up g = g # up p" by auto
    from closed less.prems Some have p: "p \<in> set G" by blast
    have d: "distinct (up p)" using up p by (intro less.hyps) simp_all
    have "g \<notin> set (up p)"
    proof
      assume "g \<in> set (up p)"
      from walk_suffix [OF walk closed p this] obtain pre where "up p = pre @ up g" by blast
      then have "length (up p) = length pre + length (up g)" by simp
      with up show False by simp
    qed
    with d up show ?thesis by simp
  qed
qed

lemma count_list_distinct: "distinct xs \<Longrightarrow> count_list xs x = (if x \<in> set xs then 1 else 0)"
  by (induction xs) auto

lemma sum_list_unique:
  "distinct G \<Longrightarrow> h \<in> set G \<Longrightarrow> \<forall>g \<in> set G. Q g \<longleftrightarrow> g = h \<Longrightarrow>
     (\<Sum>g\<leftarrow>G. if Q g then f g else (0::nat)) = f h"
proof (induction G)
  case Nil
  then show ?case by simp
next
  case (Cons a G)
  show ?case
  proof (cases "a = h")
    case True
    with Cons.prems have "\<forall>g \<in> set G. \<not> Q g" by auto
    then have "(\<Sum>g\<leftarrow>G. if Q g then f g else 0) = 0" by (induction G) auto
    with True Cons.prems show ?thesis by simp
  next
    case False
    with Cons show ?thesis by auto
  qed
qed

lemma by_descendants:
  fixes w :: "'r \<Rightarrow> nat"
  assumes dist: "distinct G"
    and rs: "\<forall>r \<in> set rs. gr r \<in> set G \<and> (\<forall>g \<in> set G. nm r = name g \<longleftrightarrow> g = gr r)"
  shows "(\<Sum>r\<leftarrow>rs. if A (gr r) then w r else 0) =
     (\<Sum>g\<leftarrow>G. if A g then (\<Sum>r\<leftarrow>rs. if nm r = name g then w r else 0) else 0)"
proof -
  have "(\<Sum>g\<leftarrow>G. if A g then (\<Sum>r\<leftarrow>rs. if nm r = name g then w r else 0) else 0) =
      (\<Sum>g\<leftarrow>G. \<Sum>r\<leftarrow>rs. if nm r = name g then (if A g then w r else 0) else 0)"
    by (rule arg_cong [where f = sum_list], rule map_cong, rule refl)
      (auto intro!: arg_cong [where f = sum_list] simp: sum_list_0)
  also have "\<dots> = (\<Sum>r\<leftarrow>rs. \<Sum>g\<leftarrow>G. if nm r = name g then (if A g then w r else 0) else 0)"
    by (rule sum_list_swap)
  also have "\<dots> = (\<Sum>r\<leftarrow>rs. if A (gr r) then w r else 0)"
  proof (rule arg_cong [where f = sum_list], rule map_cong, rule refl)
    fix r
    assume "r \<in> set rs"
    with rs have r: "gr r \<in> set G" "\<forall>g \<in> set G. nm r = name g \<longleftrightarrow> g = gr r" by auto
    from sum_list_unique [OF dist r, of "\<lambda>g. if A g then w r else 0"]
    show "(\<Sum>g\<leftarrow>G. if nm r = name g then (if A g then w r else 0) else 0) =
        (if A (gr r) then w r else 0)" .
  qed
  finally show ?thesis by simp
qed

section \<open>C5: the rolled-up counts\<close>

text \<open>
  C5: for every organisation, the rolled-up counts of
  \<open>organisations_with_broken_resource_links\<close> (with \<open>include_sub_organisations\<close>) are
  its own flat counts plus the rolled-up counts of its direct children, and every
  descendant contributes to an ancestor exactly once.

  The hierarchy is the one \<open>go_up_tree\<close> walks: the walk of a group is the group
  followed by the walk of its parent, if it has one, and parents are groups of the
  store; group names are unique, as in CKAN. The count a report gives for an
  organisation is the one of its row, and 0 when it has no row. Then both reports
  return, the rolled-up count of an organisation is its flat count plus the sum of
  the rolled-up counts of the groups whose parent it is, and it is the sum of the
  flat counts of the groups whose walk reaches it, each counted once. This holds for
  the count of packages and for the count of resources.
\<close>

theorem C5_rollup_additive:
  "distinct (map grp_name (db_group d)) \<and>
   (\<forall>g \<in> set (db_group d).
      go_up_tree g = g # (case parent g of None \<Rightarrow> [] | Some p \<Rightarrow> go_up_tree p)) \<and>
   (\<forall>g \<in> set (db_group d). \<forall>p. parent g = Some p \<longrightarrow> p \<in> set (db_group d)) \<and>
   org \<in> set (db_group d) \<and>
   (k = ''broken_package_count'' \<or> k = ''broken_resource_count'') \<longrightarrow>
   (\<exists>flat rolled.
      organisations_with_broken_resource_links d go_up_tree False = Inr flat \<and>
      organisations_with_broken_resource_links d go_up_tree True = Inr rolled \<and>
      reported_count rolled (grp_name org) k =
        reported_count flat (grp_name org) k +
        (\<Sum>c\<leftarrow>filter (\<lambda>c. parent c = Some org) (db_group d).
           reported_count rolled (grp_name c) k) \<and>
      reported_count rolled (grp_name org) k =
        (\<Sum>g\<leftarrow>db_group d.
           if org \<in> set (go_up_tree g) then reported_count flat (grp_name g) k else 0))"
proof (intro impI, elim conjE)
  let ?G = "db_group d" and ?rs = "count_rows d"
  let ?ch = "filter (\<lambda>c. parent c = Some org) ?G"
  let ?flat = "map (\<lambda>r. count_row_data (cr_publisher_title r) (cr_publisher_name r)
                (cr_broken_package_count r) (cr_broken_resource_count r)) ?rs"
  assume dn: "distinct (map grp_name ?G)"
    and walk: "\<forall>g \<in> set ?G.
      go_up_tree g = g # (case parent g of None \<Rightarrow> [] | Some p \<Rightarrow> go_up_tree p)"
    and closed: "\<forall>g \<in> set ?G. \<forall>p. parent g = Some p \<longrightarrow> p \<in> set ?G"
    and org: "org \<in> set ?G"
    and k: "k = ''broken_package_count'' \<or> k = ''broken_resource_count''"
  define gr where "gr r = the (Group_by_name d (cr_publisher_name r))" for r :: count_row
  from dn have dG: "distinct ?G" by (simp add: distinct_map)
  have gr: "Group_by_name d (cr_publisher_name r) = Some (gr r) \<and> gr r \<in> set ?G \<and>
      grp_name (gr r) = cr_publisher_name r" if "r \<in> set ?rs" for r
  proof -
    from count_rows_group [OF that] obtain g where g: "g \<in> set ?G"
      "grp_name g = cr_publisher_name r" by blast
    from find_by_name [OF dn g(1)] g(2)
    have "Group_by_name d (cr_publisher_name r) = Some g"
      by (simp add: Group_by_name_def)
    with g show ?thesis by (simp add: gr_def)
  qed
  have "\<forall>r \<in> set ?rs. \<exists>g. Group_by_name d (cr_publisher_name r) = Some g"
    using gr by blast
  from rollup_result [OF this, of "[]" go_up_tree] obtain c where c:
    "rollup d go_up_tree [] ?rs = Inr c" "distinct (map fst c)"
    "fst ` set c = (\<Union>r \<in> set ?rs. set (go_up_tree (gr r)))"
    "\<forall>P. look c P =
       ((\<Sum>r\<leftarrow>?rs. count_list (go_up_tree (gr r)) P * cr_broken_package_count r),
        (\<Sum>r\<leftarrow>?rs. count_list (go_up_tree (gr r)) P * cr_broken_resource_count r))"
    unfolding gr_def by (auto simp: look_def)
  let ?rolled = "map (\<lambda>(g, pc, rc). count_row_data (grp_title g) (grp_name g) pc rc)
         (sort_key (\<lambda>x. grp_title (fst x)) c)"
  have keys: "fst ` set c \<subseteq> set ?G"
    unfolding c(3) using walk_subset [OF walk closed] gr by blast
  have flat: "organisations_with_broken_resource_links d go_up_tree False = Inr ?flat"
    by (simp add: organisations_with_broken_resource_links_def)
  have rolled: "organisations_with_broken_resource_links d go_up_tree True = Inr ?rolled"
    by (simp add: organisations_with_broken_resource_links_def c(1))
  have same: "(gr r = org) = (cr_publisher_name r = grp_name org)" if "r \<in> set ?rs" for r
    using gr [OF that] dn org by (metis find_by_name option.inject)
  have ch: "set ?ch \<subseteq> set ?G" by auto
  have main: "int (sel (look c org)) =
      int (\<Sum>r\<leftarrow>?rs. if cr_publisher_name r = grp_name org then w r else 0) +
      (\<Sum>c'\<leftarrow>?ch. int (sel (look c c')))"
    if tot: "\<forall>P. sel (look c P) = (\<Sum>r\<leftarrow>?rs. count_list (go_up_tree (gr r)) P * w r)"
    for sel :: "nat \<times> nat \<Rightarrow> nat" and w :: "count_row \<Rightarrow> nat"
  proof -
    have "sel (look c org) = (\<Sum>r\<leftarrow>?rs. count_list (go_up_tree (gr r)) org * w r)"
      using tot by blast
    also have "\<dots> = (\<Sum>r\<leftarrow>?rs. if gr r = org then w r else 0) +
       (\<Sum>c'\<leftarrow>?ch. \<Sum>r\<leftarrow>?rs. count_list (go_up_tree (gr r)) c' * w r)"
      using gr by (intro total_additive [OF walk closed dG]) blast
    also have "(\<Sum>r\<leftarrow>?rs. if gr r = org then w r else 0) =
        (\<Sum>r\<leftarrow>?rs. if cr_publisher_name r = grp_name org then w r else 0)"
      by (rule arg_cong [where f = sum_list]) (rule map_cong, rule refl, simp add: same)
    also have "(\<Sum>c'\<leftarrow>?ch. \<Sum>r\<leftarrow>?rs. count_list (go_up_tree (gr r)) c' * w r) =
        (\<Sum>c'\<leftarrow>?ch. sel (look c c'))"
      using tot by simp
    finally show ?thesis by (simp add: int_sum_list)
  qed
  have children: "(\<Sum>c'\<leftarrow>?ch. reported_count ?rolled (grp_name c') kk) = (\<Sum>c'\<leftarrow>?ch. int (sel (look c c')))"
    if "\<And>g. g \<in> set ?G \<Longrightarrow> reported_count ?rolled (grp_name g) kk = int (sel (look c g))"
    for kk and sel :: "nat \<times> nat \<Rightarrow> nat"
    by (rule arg_cong [where f = sum_list]) (rule map_cong, rule refl, rule that, use ch in blast)
  have once: "int (sel (look c org)) =
      (\<Sum>g\<leftarrow>?G. if org \<in> set (go_up_tree g)
         then int (\<Sum>r\<leftarrow>?rs. if cr_publisher_name r = grp_name g then w r else 0) else 0)"
    if tot: "\<forall>P. sel (look c P) = (\<Sum>r\<leftarrow>?rs. count_list (go_up_tree (gr r)) P * w r)"
    for sel :: "nat \<times> nat \<Rightarrow> nat" and w :: "count_row \<Rightarrow> nat"
  proof -
    have "sel (look c org) = (\<Sum>r\<leftarrow>?rs. count_list (go_up_tree (gr r)) org * w r)"
      using tot by blast
    also have "\<dots> = (\<Sum>r\<leftarrow>?rs. if org \<in> set (go_up_tree (gr r)) then w r else 0)"
    proof (rule arg_cong [where f = sum_list], rule map_cong, rule refl)
      fix r
      assume "r \<in> set ?rs"
      with gr have "gr r \<in> set ?G" by blast
      from walk_distinct [OF walk closed this]
      show "count_list (go_up_tree (gr r)) org * w r =
          (if org \<in> set (go_up_tree (gr r)) then w r else 0)"
        by (simp add: count_list_distinct)
    qed
    also have "\<dots> = (\<Sum>g\<leftarrow>?G. if org \<in> set (go_up_tree g)
         then (\<Sum>r\<leftarrow>?rs. if cr_publisher_name r = grp_name g then w r else 0) else 0)"
    proof (rule by_descendants [OF dG])
      show "\<forall>r \<in> set ?rs. gr r \<in> set ?G \<and>
          (\<forall>g \<in> set ?G. cr_publisher_name r = grp_name g \<longleftrightarrow> g = gr r)"
      proof (intro ballI conjI)
        fix r g
        assume r: "r \<in> set ?rs"
        from gr [OF r] show "gr r \<in> set ?G" by blast
        assume "g \<in> set ?G"
        with gr [OF r] dn show "cr_publisher_name r = grp_name g \<longleftrightarrow> g = gr r"
          by (metis find_by_name option.inject)
      qed
    qed
    finally have "int (sel (look c org)) = int (\<Sum>g\<leftarrow>?G. if org \<in> set (go_up_tree g)
         then (\<Sum>r\<leftarrow>?rs. if cr_publisher_name r = grp_name g then w r else 0) else 0)"
      by simp
    also have "\<dots> = (\<Sum>g\<leftarrow>?G. int (if org \<in> set (go_up_tree g)
         then (\<Sum>r\<leftarrow>?rs. if cr_publisher_name r = grp_name g then w r else 0) else 0))"
      by (rule int_sum_list)
    also have "\<dots> = (\<Sum>g\<leftarrow>?G. if org \<in> set (go_up_tree g)
         then int (\<Sum>r\<leftarrow>?rs. if cr_publisher_name r = grp_name g then w r else 0) else 0)"
      by (rule arg_cong [where f = sum_list], rule map_cong, rule refl) simp
    finally show ?thesis .
  qed
  from k have "reported_count ?rolled (grp_name org) k =
        reported_count ?flat (grp_name org) k +
        (\<Sum>c\<leftarrow>?ch. reported_count ?rolled (grp_name c) k) \<and>
      reported_count ?rolled (grp_name org) k =
        (\<Sum>g\<leftarrow>?G. if org \<in> set (go_up_tree g)
           then reported_count ?flat (grp_name g) k else 0)"
  proof
    assume k: "k = ''broken_package_count''"
    have r: "reported_count ?rolled (grp_name g) k = int (fst (look c g))" if "g \<in> set ?G" for g
      unfolding k using c(2) keys dn that by (rule rolled_reported(1))
    have "\<forall>P. fst (look c P) =
        (\<Sum>r\<leftarrow>?rs. count_list (go_up_tree (gr r)) P * cr_broken_package_count r)"
      using c(4) by simp
    note t = this
    note m = main [of fst cr_broken_package_count, OF t]
    have "reported_count ?rolled (grp_name org) k = int (fst (look c org))"
      by (rule r [OF org])
    also note m
    also have "int (\<Sum>r\<leftarrow>?rs. if cr_publisher_name r = grp_name org then cr_broken_package_count r else 0) =
        reported_count ?flat (grp_name org) k"
      unfolding k by (rule flat_reported(1) [symmetric, OF count_rows_distinct [OF dn]])
    also have "(\<Sum>c'\<leftarrow>?ch. int (fst (look c c'))) =
        (\<Sum>c'\<leftarrow>?ch. reported_count ?rolled (grp_name c') k)"
      by (rule children [symmetric, of k fst, OF r])
    finally have first: "reported_count ?rolled (grp_name org) k =
        reported_count ?flat (grp_name org) k +
        (\<Sum>c\<leftarrow>?ch. reported_count ?rolled (grp_name c) k)" .
    have "reported_count ?rolled (grp_name org) k = int (fst (look c org))"
      by (rule r [OF org])
    also note once [of fst cr_broken_package_count, OF t]
    also have "(\<Sum>g\<leftarrow>?G. if org \<in> set (go_up_tree g)
         then int (\<Sum>r\<leftarrow>?rs. if cr_publisher_name r = grp_name g then cr_broken_package_count r else 0) else 0) =
       (\<Sum>g\<leftarrow>?G. if org \<in> set (go_up_tree g)
           then reported_count ?flat (grp_name g) k else 0)"
      unfolding k flat_reported(1) [OF count_rows_distinct [OF dn]] ..
    finally show ?thesis using first by (rule conjI [rotated])
  next
    assume k: "k = ''broken_resource_count''"
    have r: "reported_count ?rolled (grp_name g) k = int (snd (look c g))" if "g \<in> set ?G" for g
      unfolding k using c(2) keys dn that by (rule rolled_reported(2))
    have "\<forall>P. snd (look c P) =
        (\<Sum>r\<leftarrow>?rs. count_list (go_up_tree (gr r)) P * cr_broken_resource_count r)"
      using c(4) by simp
    note t = this
    note m = main [of snd cr_broken_resource_count, OF t]
    have "reported_count ?rolled (grp_name org) k = int (snd (look c org))"
      by (rule r [OF org])
    also note m
    also have "int (\<Sum>r\<leftarrow>?rs. if cr_publisher_name r = grp_name org then cr_broken_resource_count r else 0) =
        reported_count ?flat (grp_name org) k"
      unfolding k by (rule flat_reported(2) [symmetric, OF count_rows_distinct [OF dn]])
    also have "(\<Sum>c'\<leftarrow>?ch. int (snd (look c c'))) =
        (\<Sum>c'\<leftarrow>?ch. reported_count ?rolled (grp_name c') k)"
      by (rule children [symmetric, of k snd, OF r])
    finally have first: "reported_count ?rolled (grp_name org) k =
        reported_count ?flat (grp_name org) k +
        (\<Sum>c\<leftarrow>?ch. reported_count ?rolled (grp_name c) k)" .
    have "reported_count ?rolled (grp_name org) k = int (snd (look c org))"
      by (rule r [OF org])
    also note once [of snd cr_broken_resource_count, OF t]
    also have "(\<Sum>g\<leftarrow>?G. if org \<in> set (go_up_tree g)
         then int (\<Sum>r\<leftarrow>?rs. if cr_publisher_name r = grp_name g then cr_broken_resource_count r else 0) else 0) =
       (\<Sum>g\<leftarrow>?G. if org \<in> set (go_up_tree g)
           then reported_count ?flat (grp_name g) k else 0)"
      unfolding k flat_reported(2) [OF count_rows_distinct [OF dn]] ..
    finally show ?thesis using first by (rule conjI [rotated])
  qed
  with flat rolled show "\<exists>flat rolled.
      organisations_with_broken_resource_links d go_up_tree False = Inr flat \<and>
      organisations_with_broken_resource_links d go_up_tree True = Inr rolled \<and>
      reported_count rolled (grp_name org) k =
        reported_count flat (grp_name org) k +
        (\<Sum>c\<leftarrow>filter (\<lambda>c. parent c = Some org) (db_group d).
           reported_count rolled (grp_name c) k) \<and>
      reported_count rolled (grp_name org) k =
        (\<Sum>g\<leftarrow>db_group d.
           if org \<in> set (go_up_tree g) then reported_count flat (grp_name g) k else 0)"
    by blast
qed

theorem C5_rollup_additive_witness:
  "\<exists>flat rolled.
      organisations_with_broken_resource_links scenario scenario_up False = Inr flat \<and>
      organisations_with_broken_resource_links scenario scenario_up True = Inr rolled \<and>
      reported_count rolled (grp_name alpha) ''broken_package_count'' =
        reported_count flat (grp_name alpha) ''broken_package_count'' +
        (\<Sum>c\<leftarrow>filter (\<lambda>c. scenario_parent c = Some alpha) (db_group scenario).
           reported_count rolled (grp_name c) ''broken_package_count'') \<and>
      reported_count rolled (grp_name alpha) ''broken_package_count'' =
        (\<Sum>g\<leftarrow>db_group scenario.
           if alpha \<in> set (scenario_up g)
           then reported_count flat (grp_name g) ''broken_package_count'' else 0)"
proof -
  have ne: "alpha \<noteq> alpha_sub"
    by (simp add: alpha_def alpha_sub_def)
  have h: "distinct (map grp_name (db_group scenario)) \<and>
   (\<forall>g \<in> set (db_group scenario).
      scenario_up g = g # (case scenario_parent g of None \<Rightarrow> [] | Some p \<Rightarrow> scenario_up p)) \<and>
   (\<forall>g \<in> set (db_group scenario). \<forall>p. scenario_parent g = Some p \<longrightarrow> p \<in> set (db_group scenario)) \<and>
   alpha \<in> set (db_group scenario) \<and>
   (''broken_package_count'' = ''broken_package_count'' \<or>
    ''broken_package_count'' = ''broken_resource_count'')"
    using ne by (simp add: scenario_def scenario_up_def scenario_parent_def)
      (simp add: alpha_def alpha_sub_def)
  from C5_rollup_additive [of scenario scenario_up scenario_parent alpha "''broken_package_count''"] h
  show ?thesis by blast
qed

lemma scenario_counts:
  "organisations_with_broken_resource_links scenario scenario_up False =
     Inr [count_row_data ''Alpha'' ''alpha'' 1 1, count_row_data ''Alpha Sub'' ''alpha-sub'' 1 1] \<and>
   organisations_with_broken_resource_links scenario scenario_up True =
     Inr [count_row_data ''Alpha'' ''alpha'' 2 2, count_row_data ''Alpha Sub'' ''alpha-sub'' 1 1]"
  by code_simp

section \<open>C1: the score of a dataset\<close>

text \<open>
  C1 says that both score reports give, for a dataset, the numeric maximum of the
  scores of its resources, although the scores are stored as strings. The docstring
  of \<open>five_stars\<close> promises \<open>'openness_score': <int>\<close> and its comment the maximum
  score, and \<open>resource_five_stars\<close> converts the value with \<open>int\<close>; but
  \<open>five_stars\<close> takes \<open>max\<close> of the text column and
  \<open>organisation_dataset_scores\<close> compares the values as strings. For the dataset
  \<open>D1\<close> with the scores 9 (resource \<open>r1\<close>) and 10 (resource \<open>r2\<close>) both report 9,
  and the per-organisation view names \<open>r1\<close> as the best resource.
\<close>

theorem C1_text_maximum:
  "five_stars scenario_nine_ten None =
     Listing [\<lparr>se_name = ''d1'', se_title = ''D1'', se_openness_score = ''9''\<rparr>] \<and>
   organisation_dataset_scores scenario_down scenario_nine_ten ''alpha'' False =
     Inr \<lparr>ds_publisher_name = ''alpha'', ds_publisher_title = ''Alpha'',
          ds_data =
            [\<lparr>pd_dataset_title = ''D1'', pd_dataset_name = ''d1'',
              pd_publisher_title = ''Alpha'', pd_publisher_name = ''alpha'',
              pd_resource_position = Some 0, pd_resource_id = Some ''r1'',
              pd_resource_url = Some ''http://a/1'', pd_openness_score = Some ''9'',
              pd_openness_score_reason = None, pd_last_updated = Some 10\<rparr>]\<rparr> \<and>
   py_int ''9'' = Inr 9 \<and> py_int ''10'' = Inr 10"
  by code_simp

section \<open>The score that is reported\<close>

lemma map_of_dataset_step:
  "map_of (dataset_step r dat) =
     (map_of dat)(package_name r \<mapsto>
        score_row r (case map_of dat (package_name r) of
                       None \<Rightarrow> new_package_data r | Some pd \<Rightarrow> pd))"
  by (simp add: dataset_step_def update_conv' Let_def)

lemma score_rows_snoc:
  "score_rows (rows @ [r]) n =
     score_rows rows n @
     (if package_name r = n \<and> task_status_key r = ''openness_score'' then [r] else [])"
  by (simp add: score_rows_def)

lemma best_score_in: "S \<noteq> [] \<Longrightarrow> best_score S \<in> task_status_value ` set S"
  unfolding best_score_def using Max_in [of "set (map task_status_value S)"] by simp

lemma best_score_ge: "x \<in> set S \<Longrightarrow> task_status_value x \<le> best_score S"
  unfolding best_score_def by simp

lemma best_score_snoc:
  "S \<noteq> [] \<Longrightarrow> best_score (S @ [r]) = max (task_status_value r) (best_score S)"
  unfolding best_score_def by simp

lemma first_best_keep:
  assumes "S \<noteq> []" and "task_status_value r \<le> best_score S"
  shows "first_best (S @ [r]) = first_best S"
proof -
  from assms have b: "best_score (S @ [r]) = best_score S"
    by (simp add: best_score_snoc max.absorb2)
  from best_score_in [OF assms(1)] have "[x \<leftarrow> S. task_status_value x = best_score S] \<noteq> []"
    by (auto simp: filter_empty_conv)
  then show ?thesis
    unfolding first_best_def b by simp
qed

lemma first_best_new:
  assumes "S \<noteq> []" and "best_score S < task_status_value r"
  shows "first_best (S @ [r]) = r"
proof -
  from assms have b: "best_score (S @ [r]) = task_status_value r"
    by (simp add: best_score_snoc max.absorb1 less_imp_le)
  have "[x \<leftarrow> S. task_status_value x = task_status_value r] = []"
    using best_score_ge [of _ S] assms(2) by (fastforce simp: filter_empty_conv)
  then show ?thesis
    unfolding first_best_def b by simp
qed

lemma scored_step:
  assumes pd: "scored rows n pd"
    and n: "package_name r = n"
    and ne: "\<forall>x \<in> set (rows @ [r]). task_status_key x = ''openness_score'' \<longrightarrow> task_status_value x \<noteq> []"
  shows "scored (rows @ [r]) n (score_row r pd)"
proof (cases "task_status_key r = ''openness_score''")
  case False
  then show ?thesis
    using pd n by (simp add: scored_def score_rows_snoc score_row_def)
next
  case True
  let ?S = "score_rows rows n"
  show ?thesis
  proof (cases "?S = []")
    case True
    with pd \<open>task_status_key r = ''openness_score''\<close> n show ?thesis
      by (simp add: scored_def score_rows_snoc score_row_def beats_def best_score_def first_best_def)
  next
    case False
    with pd have b: "pd_openness_score pd = Some (best_score ?S)"
      "pd_resource_id pd = Some (resource_id (first_best ?S))" "pd_dataset_name pd = n"
      by (simp_all add: scored_def)
    from best_score_in [OF False] obtain x where x: "x \<in> set ?S" "best_score ?S = task_status_value x"
      by auto
    with ne have nb: "best_score ?S \<noteq> []"
      by (auto simp: score_rows_def)
    show ?thesis
    proof (cases "task_status_value r > best_score ?S")
      case True
      with \<open>?S \<noteq> []\<close> have bs: "best_score (?S @ [r]) = task_status_value r"
        by (simp add: best_score_snoc max.absorb1 less_imp_le)
      from \<open>?S \<noteq> []\<close> True have fb: "first_best (?S @ [r]) = r"
        by (rule first_best_new)
      from b nb True \<open>task_status_key r = ''openness_score''\<close> n show ?thesis
        by (simp add: scored_def score_rows_snoc score_row_def beats_def bs fb)
    next
      case False
      then have le: "task_status_value r \<le> best_score ?S" by simp
      with \<open>?S \<noteq> []\<close> have bs: "best_score (?S @ [r]) = best_score ?S"
        by (simp add: best_score_snoc max.absorb2)
      from \<open>?S \<noteq> []\<close> le have fb: "first_best (?S @ [r]) = first_best ?S"
        by (rule first_best_keep)
      from b nb False \<open>task_status_key r = ''openness_score''\<close> n show ?thesis
        by (simp add: scored_def score_rows_snoc score_row_def beats_def bs fb)
    qed
  qed
qed

lemma scored_other:
  "scored rows n pd \<Longrightarrow> package_name r \<noteq> n \<Longrightarrow> scored (rows @ [r]) n pd"
  by (simp add: scored_def score_rows_snoc)

lemma scored_new: "\<forall>x \<in> set rows. package_name x \<noteq> package_name r \<Longrightarrow>
    scored rows (package_name r) (new_package_data r)"
  by (auto simp: scored_def score_rows_def new_package_data_def filter_empty_conv)

lemma dataset_scores_invariant:
  assumes "\<forall>x \<in> set rows. task_status_key x = ''openness_score'' \<longrightarrow> task_status_value x \<noteq> []"
  shows "(\<forall>n pd. map_of (fold dataset_step rows []) n = Some pd \<longrightarrow> scored rows n pd) \<and>
     (\<forall>x \<in> set rows. map_of (fold dataset_step rows []) (package_name x) \<noteq> None)"
  using assms
proof (induction rows rule: rev_induct)
  case Nil
  then show ?case by simp
next
  case (snoc r rows)
  let ?dat = "fold dataset_step rows []"
  let ?pd = "case map_of ?dat (package_name r) of None \<Rightarrow> new_package_data r | Some pd \<Rightarrow> pd"
  from snoc.prems have "\<forall>x \<in> set rows. task_status_key x = ''openness_score'' \<longrightarrow> task_status_value x \<noteq> []"
    by simp
  with snoc.IH have IH: "\<And>n pd. map_of ?dat n = Some pd \<Longrightarrow> scored rows n pd"
    "\<And>x. x \<in> set rows \<Longrightarrow> map_of ?dat (package_name x) \<noteq> None"
    by blast+
  have pd: "scored rows (package_name r) ?pd"
  proof (cases "map_of ?dat (package_name r)")
    case None
    with IH(2) have "\<forall>x \<in> set rows. package_name x \<noteq> package_name r" by metis
    with None show ?thesis by (simp add: scored_new)
  next
    case (Some a)
    with IH(1) show ?thesis by simp
  qed
  have step: "scored (rows @ [r]) (package_name r) (score_row r ?pd)"
    using pd refl snoc.prems by (rule scored_step)
  have m: "map_of (fold dataset_step (rows @ [r]) []) =
      (map_of ?dat)(package_name r \<mapsto> score_row r ?pd)"
    by (simp add: map_of_dataset_step)
  show ?case
  proof (intro conjI allI impI ballI)
    fix n pd
    assume "map_of (fold dataset_step (rows @ [r]) []) n = Some pd"
    then show "scored (rows @ [r]) n pd"
      unfolding m using step IH(1) by (auto simp: scored_other split: if_splits)
  next
    fix x
    assume "x \<in> set (rows @ [r])"
    then show "map_of (fold dataset_step (rows @ [r]) []) (package_name x) \<noteq> None"
      unfolding m using IH(2) by auto
  qed
qed

lemma digit_of_order:
  "digit_of a = Some i \<Longrightarrow> digit_of b = Some j \<Longrightarrow> (a \<le> b) = (i \<le> j)"
  by (auto simp: digit_of_def less_eq_char_def split: if_splits)

lemma one_digit_order:
  assumes "one_digit a" and "one_digit b"
  shows "(a \<le> b) = (score_int a \<le> score_int b)"
proof -
  from assms obtain c e i j where c: "a = [c]" "b = [e]" "digit_of c = Some i" "digit_of e = Some j"
    by (auto simp: one_digit_def split: list.splits)
  have "score_int a = int i" "score_int b = int j"
    using c by (auto simp: score_int_def py_int_def strip_def is_space_def unsigned_int_def
        digit_of_def split: if_splits)
  moreover have "(a \<le> b) = (c \<le> e)" using c by auto
  ultimately show ?thesis using digit_of_order [OF c(3,4)] by simp
qed

lemma distinct_dataset_step: "distinct (map fst dat) \<Longrightarrow> distinct (map fst (dataset_step r dat))"
  by (simp add: dataset_step_def Let_def distinct_update)

lemma distinct_fold_dataset_step:
  "distinct (map fst dat) \<Longrightarrow> distinct (map fst (fold dataset_step rows dat))"
  by (induction rows arbitrary: dat) (simp_all add: distinct_dataset_step)

lemma one_digit_maximum:
  assumes "S \<noteq> []" and "\<forall>r \<in> set S. one_digit (task_status_value r)"
  shows "score_int (best_score S) = Max (score_int ` task_status_value ` set S)"
proof -
  from best_score_in [OF assms(1)] have b: "best_score S \<in> task_status_value ` set S" .
  with assms(2) have ob: "one_digit (best_score S)" by auto
  have "Max (score_int ` task_status_value ` set S) = score_int (best_score S)"
  proof (rule Max_eqI)
    show "finite (score_int ` task_status_value ` set S)" by simp
    show "score_int (best_score S) \<in> score_int ` task_status_value ` set S"
      using b by (rule imageI)
    fix y
    assume "y \<in> score_int ` task_status_value ` set S"
    then obtain r where r: "r \<in> set S" "y = score_int (task_status_value r)" by auto
    from r(1) assms(2) have "one_digit (task_status_value r)" by blast
    from one_digit_order [OF this ob] best_score_ge [OF r(1)] r(2)
    show "y \<le> score_int (best_score S)" by simp
  qed
  then show ?thesis by simp
qed

text \<open>
  What \<open>organisation_dataset_scores\<close> does report for a dataset that has a score row,
  when no score is the empty string: one entry, with the greatest score in the order
  of strings and the first resource (in the order of the rows) that has this score.
  For scores of one digit the order of strings is the order of numbers, and the
  reported score is the numeric maximum.
\<close>

theorem dataset_score_text_maximum:
  "organisation_dataset_scores go_down_tree d name sub = Inr rep \<and>
   org_filter d go_down_tree name sub = Inr f \<and>
   rows = dataset_scores_rows d f \<and>
   (\<forall>x \<in> set rows. task_status_key x = ''openness_score'' \<longrightarrow> task_status_value x \<noteq> []) \<and>
   score_rows rows n \<noteq> [] \<longrightarrow>
     (\<exists>pd \<in> set (ds_data rep). pd_dataset_name pd = n) \<and>
     (\<forall>pd \<in> set (ds_data rep). pd_dataset_name pd = n \<longrightarrow>
        pd_openness_score pd = Some (best_score (score_rows rows n)) \<and>
        pd_resource_id pd = Some (resource_id (first_best (score_rows rows n)))) \<and>
     ((\<forall>r \<in> set (score_rows rows n). one_digit (task_status_value r)) \<longrightarrow>
        score_int (best_score (score_rows rows n)) =
          Max (score_int ` task_status_value ` set (score_rows rows n)))"
proof (intro impI, elim conjE)
  assume rep: "organisation_dataset_scores go_down_tree d name sub = Inr rep"
    and f: "org_filter d go_down_tree name sub = Inr f"
    and rows: "rows = dataset_scores_rows d f"
    and ne: "\<forall>x \<in> set rows. task_status_key x = ''openness_score'' \<longrightarrow> task_status_value x \<noteq> []"
    and S: "score_rows rows n \<noteq> []"
  let ?dat = "fold dataset_step rows []"
  from rep f rows have data: "ds_data rep = map snd ?dat"
    by (auto simp: organisation_dataset_scores_def dataset_scores_def Let_def split: option.splits)
  from dataset_scores_invariant [OF ne]
  have inv: "\<And>m pd. map_of ?dat m = Some pd \<Longrightarrow> scored rows m pd"
    "\<And>x. x \<in> set rows \<Longrightarrow> map_of ?dat (package_name x) \<noteq> None"
    by blast+
  have dist: "distinct (map fst ?dat)"
    by (rule distinct_fold_dataset_step) simp
  define x where "x = hd (score_rows rows n)"
  from S have "x \<in> set (score_rows rows n)" by (simp add: x_def)
  then have x: "x \<in> set rows" "package_name x = n"
    by (simp_all add: score_rows_def)
  from inv(2) [OF x(1)] x(2) obtain pd0 where pd0: "map_of ?dat n = Some pd0" by auto
  from inv(1) [OF pd0] have "pd_dataset_name pd0 = n" by (simp add: scored_def)
  moreover from pd0 have "pd0 \<in> set (ds_data rep)"
    unfolding data by (auto dest: map_of_SomeD intro: rev_image_eqI)
  ultimately have ex: "\<exists>pd \<in> set (ds_data rep). pd_dataset_name pd = n" by blast
  have all: "\<forall>pd \<in> set (ds_data rep). pd_dataset_name pd = n \<longrightarrow>
        pd_openness_score pd = Some (best_score (score_rows rows n)) \<and>
        pd_resource_id pd = Some (resource_id (first_best (score_rows rows n)))"
  proof (intro ballI impI)
    fix pd
    assume "pd \<in> set (ds_data rep)" and nm: "pd_dataset_name pd = n"
    then obtain m where "(m, pd) \<in> set ?dat" unfolding data by auto
    with dist have m: "map_of ?dat m = Some pd" by simp
    from inv(1) [OF m] nm have "m = n" by (simp add: scored_def)
    with inv(1) [OF m] S
    show "pd_openness_score pd = Some (best_score (score_rows rows n)) \<and>
        pd_resource_id pd = Some (resource_id (first_best (score_rows rows n)))"
      by (simp add: scored_def)
  qed
  have num: "(\<forall>r \<in> set (score_rows rows n). one_digit (task_status_value r)) \<longrightarrow>
        score_int (best_score (score_rows rows n)) =
          Max (score_int ` task_status_value ` set (score_rows rows n))"
    using one_digit_maximum [OF S] by blast
  from ex all num show "(\<exists>pd \<in> set (ds_data rep). pd_dataset_name pd = n) \<and>
     (\<forall>pd \<in> set (ds_data rep). pd_dataset_name pd = n \<longrightarrow>
        pd_openness_score pd = Some (best_score (score_rows rows n)) \<and>
        pd_resource_id pd = Some (resource_id (first_best (score_rows rows n)))) \<and>
     ((\<forall>r \<in> set (score_rows rows n). one_digit (task_status_value r)) \<longrightarrow>
        score_int (best_score (score_rows rows n)) =
          Max (score_int ` task_status_value ` set (score_rows rows n)))"
    by blast
qed

theorem dataset_score_text_maximum_witness:
  "pd_openness_score d2_scores =
     Some (best_score (score_rows
       (dataset_scores_rows scenario (\<lambda>j. publisher_name j = ''alpha-sub'')) ''d2'')) \<and>
   pd_resource_id d2_scores =
     Some (resource_id (first_best (score_rows
       (dataset_scores_rows scenario (\<lambda>j. publisher_name j = ''alpha-sub'')) ''d2''))) \<and>
   score_int (best_score (score_rows
       (dataset_scores_rows scenario (\<lambda>j. publisher_name j = ''alpha-sub'')) ''d2'')) =
     Max (score_int ` task_status_value ` set (score_rows
       (dataset_scores_rows scenario (\<lambda>j. publisher_name j = ''alpha-sub'')) ''d2''))"
proof -
  let ?f = "\<lambda>j. publisher_name j = ''alpha-sub''"
  let ?rows = "dataset_scores_rows scenario ?f"
  let ?rep = "\<lparr>ds_publisher_name = ''alpha-sub'', ds_publisher_title = ''Alpha Sub'',
      ds_data = [d2_scores]\<rparr>"
  have h1: "organisation_dataset_scores scenario_down scenario ''alpha-sub'' False = Inr ?rep"
    by code_simp
  have h2: "org_filter scenario scenario_down ''alpha-sub'' False = Inr ?f"
    by (simp add: org_filter_def)
  have h3: "(\<forall>x \<in> set ?rows. task_status_key x = ''openness_score'' \<longrightarrow> task_status_value x \<noteq> []) \<and>
      score_rows ?rows ''d2'' \<noteq> [] \<and>
      (\<forall>r \<in> set (score_rows ?rows ''d2''). one_digit (task_status_value r)) \<and>
      d2_scores \<in> set (ds_data ?rep) \<and> pd_dataset_name d2_scores = ''d2''"
    by code_simp
  from dataset_score_text_maximum [where go_down_tree = scenario_down and d = scenario
      and name = "''alpha-sub''" and sub = False and rep = ?rep and f = ?f and rows = ?rows
      and n = "''d2''"] h1 h2 h3
  show ?thesis by blast
qed

end
